theory Spec2Isabelle
  imports Main "HOL-Library.Word" "HOL-Library.Sublist"
begin

section \<open>Data model of Source/Scene/GltfImageCacheResource.js\<close>

text \<open>
  The file defines one cache resource: it resolves one image of a glTF into a decoded
  image, from a buffer view that it asks the resource cache for or from a uri. The
  embedding follows the file function by function. What the file calls and does not
  define (the resource cache, the decoders, the deferred) appears as the calls made on
  it, kept in order, and as the outcomes it delivers.
\<close>

type_synonym byte = "8 word"

text \<open>The four values of CacheResourceState that the file uses.\<close>

datatype CacheResourceState = UNLOADED | LOADING | READY | FAILED

datatype error = RuntimeError string | TypeError string

subsection \<open>The glTF JSON that the constructor reads\<close>

text \<open>
  A compressed variant (\<open>crunch\<close>, \<open>s3tc\<close>, \<open>pvrtc1\<close>, \<open>etc1\<close>) carries a
  \<open>bufferView\<close> or a \<open>uri\<close>; an image of \<open>gltf.images\<close> carries the same two
  properties and \<open>extras\<close>. A property that is not defined is \<open>None\<close>.
\<close>

record imageSource =
  bufferView :: "nat option"
  uri :: "string option"

record compressedImage3DTiles =
  crunch :: "imageSource option"
  s3tc :: "imageSource option"
  pvrtc1 :: "imageSource option"
  etc1 :: "imageSource option"

record extras =
  compressedImage3DTiles :: "compressedImage3DTiles option"

record gltfImage = imageSource +
  extras :: "extras option"

record gltf =
  images :: "gltfImage list"

text \<open>\<open>options.supportedImageFormats\<close>, under the names of the constructor's locals.\<close>

record supportedImageFormats =
  supportsWebP :: bool
  supportsS3tc :: bool
  supportsPvrtc :: bool
  supportsEtc1 :: bool

section \<open>Format sniffing\<close>

text \<open>
  \<open>TypedArray.subarray(begin, end)\<close> with indices that are not negative: both are
  clamped to the length. Reading an element out of range gives \<open>undefined\<close>, which is
  \<open>===\<close> to no number.
\<close>

definition subarray :: "nat \<Rightarrow> nat \<Rightarrow> byte list \<Rightarrow> byte list" where
  "subarray b e xs =
     (let n = length xs; b' = min b n; e' = min e n
      in take (e' - b') (drop b' xs))"

definition elem :: "byte list \<Rightarrow> nat \<Rightarrow> byte option" where
  "elem xs i = (if i < length xs then Some (xs ! i) else None)"

definition getMimeTypeFromTypedArray :: "byte list \<Rightarrow> error + string" where
  "getMimeTypeFromTypedArray typedArray =
     (let header = subarray 0 2 typedArray;
          webpHeaderRIFFChars = subarray 0 4 typedArray;
          webpHeaderWEBPChars = subarray 8 12 typedArray
      in if elem header 0 = Some 0x42 \<and> elem header 1 = Some 0x49 then Inr ''image/bmp''
         else if elem header 0 = Some 0x47 \<and> elem header 1 = Some 0x49 then Inr ''image/gif''
         else if elem header 0 = Some 0xff \<and> elem header 1 = Some 0xd8 then Inr ''image/jpeg''
         else if elem header 0 = Some 0x89 \<and> elem header 1 = Some 0x50 then Inr ''image/png''
         else if elem header 0 = Some 0xab \<and> elem header 1 = Some 0x4b then Inr ''image/ktx''
         else if elem header 0 = Some 0x48 \<and> elem header 1 = Some 0x78 then Inr ''image/crn''
         else if elem header 0 = Some 0x73 \<and> elem header 1 = Some 0x42 then Inr ''image/basis''
         else if elem webpHeaderRIFFChars 0 = Some 0x52 \<and>
                 elem webpHeaderRIFFChars 1 = Some 0x49 \<and>
                 elem webpHeaderRIFFChars 2 = Some 0x46 \<and>
                 elem webpHeaderRIFFChars 3 = Some 0x46 \<and>
                 elem webpHeaderWEBPChars 0 = Some 0x57 \<and>
                 elem webpHeaderWEBPChars 1 = Some 0x45 \<and>
                 elem webpHeaderWEBPChars 2 = Some 0x42 \<and>
                 elem webpHeaderWEBPChars 3 = Some 0x50 then Inr ''image/webp''
         else Inl (RuntimeError ''Image data does not have valid header''))"

section \<open>Decoder dispatch\<close>

text \<open>
  The decoders (\<open>loadKTX\<close>, \<open>loadCRN\<close>, \<open>loadImageFromTypedArray\<close>,
  \<open>Resource.fetchImage\<close>) are collaborators; a dispatch is the call that is made, with
  its arguments. \<open>loadKTX\<close> and \<open>loadCRN\<close> take a typed array or a resource (its url).
\<close>

datatype decoderInput = TypedArray "byte list" | Resource string

datatype decoderCall =
    LoadKTX decoderInput
  | LoadCRN decoderInput
  | LoadImageFromTypedArray "byte list" string bool
  | FetchImage string

definition loadImageFromBufferTypedArray :: "byte list \<Rightarrow> error + decoderCall" where
  "loadImageFromBufferTypedArray typedArray =
     (case getMimeTypeFromTypedArray typedArray of
        Inl e \<Rightarrow> Inl e
      | Inr mimeType \<Rightarrow>
          if mimeType = ''image/ktx'' then Inr (LoadKTX (TypedArray typedArray))
          else if mimeType = ''image/crn'' then Inr (LoadCRN (TypedArray typedArray))
          else Inr (LoadImageFromTypedArray typedArray mimeType False))"


subsection \<open>Dispatch on the url of a resource\<close>

text \<open>
  \<open>ktxRegex\<close> and \<open>crnRegex\<close> are regular expressions with the flag \<open>i\<close>, made of two
  alternatives; a term of an alternative is \<open>^\<close>, \<open>$\<close> or a pattern character.
  Without the flag \<open>m\<close>, \<open>^\<close> holds at index 0 only and \<open>$\<close> at the end of the input.
  Under the flag \<open>i\<close> two characters match when they have the same canonical form, which
  is the upper case of an ASCII letter; a character outside ASCII never has an ASCII
  canonical form, so against these ASCII patterns it is enough to leave it as it is.
\<close>

datatype regexTerm = AssertStart | AssertEnd | PatternChar char

definition canonicalize :: "char \<Rightarrow> char" where
  "canonicalize ch =
     (case map_of (zip ''abcdefghijklmnopqrstuvwxyz'' ''ABCDEFGHIJKLMNOPQRSTUVWXYZ'') ch of
        None \<Rightarrow> ch
      | Some upper \<Rightarrow> upper)"

fun matchTerms :: "regexTerm list \<Rightarrow> nat \<Rightarrow> string \<Rightarrow> bool" where
  "matchTerms [] index rest = True"
| "matchTerms (AssertStart # ts) index rest = (index = 0 \<and> matchTerms ts index rest)"
| "matchTerms (AssertEnd # ts) index rest = (rest = [] \<and> matchTerms ts index rest)"
| "matchTerms (PatternChar c # ts) index [] = False"
| "matchTerms (PatternChar c # ts) index (x # xs) =
     (canonicalize x = canonicalize c \<and> matchTerms ts (Suc index) xs)"

definition matchAlternatives :: "regexTerm list list \<Rightarrow> nat \<Rightarrow> string \<Rightarrow> bool" where
  "matchAlternatives alts index rest = list_ex (\<lambda>ts. matchTerms ts index rest) alts"

text \<open>\<open>RegExp.prototype.test\<close>: a match may start at any index, from 0 to the length.\<close>

fun searchFrom :: "regexTerm list list \<Rightarrow> nat \<Rightarrow> string \<Rightarrow> bool" where
  "searchFrom alts index [] = matchAlternatives alts index []"
| "searchFrom alts index (x # xs) =
     (matchAlternatives alts index (x # xs) \<or> searchFrom alts (Suc index) xs)"

definition regexTest :: "regexTerm list list \<Rightarrow> string \<Rightarrow> bool" where
  "regexTest alts input = searchFrom alts 0 input"

definition ktxRegex :: "regexTerm list list" where
  "ktxRegex = [AssertStart # map PatternChar ''data:image/ktx'',
               map PatternChar ''.ktx'' @ [AssertEnd]]"

definition crnRegex :: "regexTerm list list" where
  "crnRegex = [AssertStart # map PatternChar ''data:image/crn'',
               map PatternChar ''.crn'' @ [AssertEnd]]"

definition loadImageFromUri :: "string \<Rightarrow> decoderCall" where
  "loadImageFromUri url =
     (if regexTest ktxRegex url then LoadKTX (Resource url)
      else if regexTest crnRegex url then LoadCRN (Resource url)
      else FetchImage url)"

text \<open>
  The wording of the specification for the two patterns: a scheme prefix or a filename
  suffix, compared without regard to the case of ASCII letters.
\<close>

definition hasPrefixIgnoringCase :: "string \<Rightarrow> string \<Rightarrow> bool" where
  "hasPrefixIgnoringCase p url = prefix (map canonicalize p) (map canonicalize url)"

definition hasSuffixIgnoringCase :: "string \<Rightarrow> string \<Rightarrow> bool" where
  "hasSuffixIgnoringCase p url = suffix (map canonicalize p) (map canonicalize url)"

section \<open>The cache entry\<close>

datatype decoded = Image nat | CompressedTextureBuffer nat

text \<open>
  \<open>CacheResource.getError(error, errorMessage)\<close> builds the value that the promise is
  rejected with. It is defined in CacheResource.js, outside this file: the value keeps
  both arguments.
\<close>

datatype rejection = GetError error string

datatype settlement = Resolved | Rejected rejection

text \<open>
  The fields of the object, \<open>this._uri\<close> as \<open>this_uri\<close>. A BufferViewCacheResource is
  identified by a number. The base resource is represented by its method
  \<open>getDerivedResource\<close>, from \<open>options.url\<close> to the url of the derived resource.
  \<open>this_promise\<close> is the state of the deferred made by \<open>when.defer()\<close>, \<open>None\<close> while
  it is pending.
\<close>

record entry =
  this_gltfResource :: string
  this_baseResource :: "string option \<Rightarrow> string"
  this_gltf :: "gltf option"
  this_bufferViewId :: "nat option"
  this_uri :: "string option"
  this_cacheKey :: string
  this_bufferViewCacheResource :: "nat option"
  this_image :: "decoded option"
  this_state :: CacheResourceState
  this_promise :: "settlement option"

subsection \<open>The constructor\<close>

text \<open>
  The body of each of the four branches of the constructor (lines 81 to 85, and the same
  for the three other variants): the \<open>bufferView\<close> of the variant replaces the local
  \<open>bufferViewId\<close> when it is defined, and otherwise its \<open>uri\<close> replaces the local
  \<open>uri\<close>. The pair is (\<open>bufferViewId\<close>, \<open>uri\<close>).
\<close>

definition useVariant ::
  "imageSource \<Rightarrow> nat option \<times> string option \<Rightarrow> nat option \<times> string option" where
  "useVariant v src =
     (if bufferView v \<noteq> None then (bufferView v, snd src) else (fst src, uri v))"

text \<open>
  Lines 67 to 105: the two locals start from the image, and the first variant, in the
  order \<open>crunch\<close>, \<open>s3tc\<close>, \<open>pvrtc1\<close>, \<open>etc1\<close>, that is defined and whose flag is
  set is used. \<open>crunch\<close> and \<open>s3tc\<close> are both tested with \<open>supportsS3tc\<close>;
  \<open>supportsWebP\<close> is read and not used.
\<close>

definition checkCompressed ::
  "supportedImageFormats \<Rightarrow> gltfImage \<Rightarrow> nat option \<times> string option" where
  "checkCompressed formats img =
     (let src = (bufferView img, uri img)
      in case extras img of
           None \<Rightarrow> src
         | Some ex \<Rightarrow>
             (case compressedImage3DTiles ex of
                None \<Rightarrow> src
              | Some c \<Rightarrow>
                  if supportsS3tc formats \<and> crunch c \<noteq> None then useVariant (the (crunch c)) src
                  else if supportsS3tc formats \<and> s3tc c \<noteq> None then useVariant (the (s3tc c)) src
                  else if supportsPvrtc formats \<and> pvrtc1 c \<noteq> None then useVariant (the (pvrtc1 c)) src
                  else if supportsEtc1 formats \<and> etc1 c \<noteq> None then useVariant (the (etc1 c)) src
                  else src))"

text \<open>
  The arguments have the types that the checks of the debug build ask for.
  \<open>gltf.images[imageId]\<close> is \<open>undefined\<close> out of range, and reading \<open>extras\<close> of it
  throws.
\<close>

definition GltfImageCacheResource ::
  "gltf \<Rightarrow> nat \<Rightarrow> string \<Rightarrow> (string option \<Rightarrow> string) \<Rightarrow> supportedImageFormats \<Rightarrow> string
     \<Rightarrow> error + entry" where
  "GltfImageCacheResource gltf0 imageId gltfResource baseResource formats cacheKey =
     (if imageId < length (images gltf0) then
        let src = checkCompressed formats (images gltf0 ! imageId)
        in Inr \<lparr>this_gltfResource = gltfResource,
                this_baseResource = baseResource,
                this_gltf = Some gltf0,
                this_bufferViewId = fst src,
                this_uri = snd src,
                this_cacheKey = cacheKey,
                this_bufferViewCacheResource = None,
                this_image = None,
                this_state = UNLOADED,
                this_promise = None\<rparr>
      else Inl (TypeError ''image is undefined''))"

subsection \<open>The entry with its pending continuations and its calls\<close>

text \<open>
  A call of \<open>load\<close> leaves a chain of continuations behind. Its closures hold the
  BufferViewCacheResource, or the \<open>uri\<close> read by \<open>loadFromUri\<close>:
  \<^item> \<open>AwaitBufferView r\<close>: the promise of the buffer view \<open>r\<close> is not settled;
  \<^item> \<open>AwaitDecode r\<close>: the promise of \<open>loadImageFromBufferTypedArray\<close> is not settled;
  \<^item> \<open>AwaitOtherwise e\<close>: the first callback threw \<open>e\<close>, \<open>otherwise\<close> has not run;
  \<^item> \<open>AwaitUri u\<close>: the promise of \<open>loadImageFromUri\<close> is not settled;
  \<^item> \<open>Finished\<close>: the chain has run to its end.
\<close>

datatype task =
    AwaitBufferView nat
  | AwaitDecode nat
  | AwaitOtherwise error
  | AwaitUri "string option"
  | Finished

text \<open>
  The calls made on the collaborators and on the deferred, in order.
  \<open>ResourceCacheLoadBufferView\<close> keeps \<open>bufferViewId\<close>, \<open>keepResident\<close> and the resource
  that the cache returned.
\<close>

datatype effect =
    ResourceCacheLoadBufferView "nat option" bool nat
  | ResourceCacheUnload nat
  | Dispatch decoderCall
  | PromiseResolve
  | PromiseReject rejection

record sys = entry +
  pending :: "task list"
  trace :: "effect list"

definition newSys :: "entry \<Rightarrow> sys" where
  "newSys e = entry.extend e (sys.fields [] [])"

text \<open>
  Modelled from the spec: the deferred of \<open>when.defer()\<close> (ThirdParty/when.js, outside
  this file) is "a single-resolution future", "resolved exactly once" and "never
  re-resolved", and "a second settlement attempt is a no-op": \<open>resolve\<close> and \<open>reject\<close>
  settle a pending deferred and leave a settled one as it is. The call is recorded in both
  cases.
\<close>

definition resolve :: "sys \<Rightarrow> sys" where
  "resolve s =
     s\<lparr>this_promise := (case this_promise s of None \<Rightarrow> Some Resolved | Some v \<Rightarrow> Some v),
       trace := trace s @ [PromiseResolve]\<rparr>"

definition reject :: "rejection \<Rightarrow> sys \<Rightarrow> sys" where
  "reject r s =
     s\<lparr>this_promise := (case this_promise s of None \<Rightarrow> Some (Rejected r) | Some v \<Rightarrow> Some v),
       trace := trace s @ [PromiseReject r]\<rparr>"

definition getError :: "error \<Rightarrow> string \<Rightarrow> rejection" where
  "getError err errorMessage = GetError err errorMessage"

subsection \<open>unload, handleError, load\<close>

definition unload :: "sys \<Rightarrow> sys" where
  "unload s =
     (let s1 = (case this_bufferViewCacheResource s of
                  None \<Rightarrow> s
                | Some r \<Rightarrow> s\<lparr>trace := trace s @ [ResourceCacheUnload r]\<rparr>)
      in s1\<lparr>this_bufferViewCacheResource := None,
            this_uri := None,
            this_image := None,
            this_gltf := None\<rparr>)"

definition prototype_unload :: "sys \<Rightarrow> sys" where
  "prototype_unload s = (unload s)\<lparr>this_state := UNLOADED\<rparr>"

definition handleError :: "error \<Rightarrow> string \<Rightarrow> sys \<Rightarrow> sys" where
  "handleError err errorMessage s =
     reject (getError err errorMessage) ((unload s)\<lparr>this_state := FAILED\<rparr>)"

text \<open>\<open>r\<close> is the resource that \<open>resourceCache.loadBufferView\<close> returns.\<close>

definition loadFromBufferView :: "nat \<Rightarrow> sys \<Rightarrow> sys" where
  "loadFromBufferView r s =
     s\<lparr>this_bufferViewCacheResource := Some r,
       this_state := LOADING,
       pending := pending s @ [AwaitBufferView r],
       trace := trace s @ [ResourceCacheLoadBufferView (this_bufferViewId s) False r]\<rparr>"

definition loadFromUri :: "sys \<Rightarrow> sys" where
  "loadFromUri s =
     (let uri0 = this_uri s;
          resource = this_baseResource s uri0
      in s\<lparr>this_state := LOADING,
           pending := pending s @ [AwaitUri uri0],
           trace := trace s @ [Dispatch (loadImageFromUri resource)]\<rparr>)"

definition load :: "nat \<Rightarrow> sys \<Rightarrow> sys" where
  "load r s =
     (if this_bufferViewId s \<noteq> None then loadFromBufferView r s else loadFromUri s)"

subsection \<open>The continuations\<close>

definition taskAt :: "nat \<Rightarrow> sys \<Rightarrow> task" where
  "taskAt k s = (if k < length (pending s) then pending s ! k else Finished)"

definition setTask :: "nat \<Rightarrow> task \<Rightarrow> sys \<Rightarrow> sys" where
  "setTask k t s = s\<lparr>pending := (pending s)[k := t]\<rparr>"

text \<open>The callback of \<open>bufferViewCacheResource.promise.then\<close>, for the chain \<open>k\<close>.\<close>

definition bufferViewThen :: "nat \<Rightarrow> nat \<Rightarrow> byte list \<Rightarrow> sys \<Rightarrow> sys" where
  "bufferViewThen k r typedArray s =
     (if this_state s = UNLOADED then setTask k Finished (unload s)
      else case loadImageFromBufferTypedArray typedArray of
             Inl e \<Rightarrow> setTask k (AwaitOtherwise e) s
           | Inr call \<Rightarrow> setTask k (AwaitDecode r) (s\<lparr>trace := trace s @ [Dispatch call]\<rparr>))"

text \<open>
  The callback given to \<open>then\<close> on the promise of the decoder; \<open>loadFromBufferView\<close>
  and \<open>loadFromUri\<close> have the same one.
\<close>

definition imageThen :: "nat \<Rightarrow> decoded \<Rightarrow> sys \<Rightarrow> sys" where
  "imageThen k img s =
     (if this_state s = UNLOADED then setTask k Finished (unload s)
      else setTask k Finished
             (resolve ((unload s)\<lparr>this_image := Some img, this_state := READY\<rparr>)))"

definition toString :: "string option \<Rightarrow> string" where
  "toString u = (case u of None \<Rightarrow> ''undefined'' | Some x \<Rightarrow> x)"

definition embeddedOtherwise :: "nat \<Rightarrow> error \<Rightarrow> sys \<Rightarrow> sys" where
  "embeddedOtherwise k err s =
     setTask k Finished (handleError err ''Failed to load embedded image'' s)"

definition uriOtherwise :: "nat \<Rightarrow> string option \<Rightarrow> error \<Rightarrow> sys \<Rightarrow> sys" where
  "uriOtherwise k uri0 err s =
     setTask k Finished (handleError err (''Failed to load image:'' @ toString uri0) s)"

subsection \<open>Steps\<close>

text \<open>
  What happens to an entry: a call of \<open>load\<close> (with the resource that the cache would
  return) or of \<open>unload\<close>, or the resumption of the chain \<open>k\<close> with the outcome of the
  promise it waits for. A callback runs to its end before anything else happens, and the
  chains are numbered in the order of the calls of \<open>load\<close>. A resumption that does not
  fit the chain changes nothing.
\<close>

datatype event =
    Load nat
  | Unload
  | BufferViewResolved nat "byte list"
  | BufferViewRejected nat error
  | DecodeResolved nat decoded
  | DecodeRejected nat error
  | OtherwiseCalled nat
  | UriResolved nat decoded
  | UriRejected nat error

fun step :: "event \<Rightarrow> sys \<Rightarrow> sys" where
  "step (Load r) s = load r s"
| "step Unload s = prototype_unload s"
| "step (BufferViewResolved k typedArray) s =
     (case taskAt k s of AwaitBufferView r \<Rightarrow> bufferViewThen k r typedArray s | _ \<Rightarrow> s)"
| "step (BufferViewRejected k err) s =
     (case taskAt k s of AwaitBufferView r \<Rightarrow> embeddedOtherwise k err s | _ \<Rightarrow> s)"
| "step (DecodeResolved k img) s =
     (case taskAt k s of AwaitDecode r \<Rightarrow> imageThen k img s | _ \<Rightarrow> s)"
| "step (DecodeRejected k err) s =
     (case taskAt k s of AwaitDecode r \<Rightarrow> embeddedOtherwise k err s | _ \<Rightarrow> s)"
| "step (OtherwiseCalled k) s =
     (case taskAt k s of AwaitOtherwise err \<Rightarrow> embeddedOtherwise k err s | _ \<Rightarrow> s)"
| "step (UriResolved k img) s =
     (case taskAt k s of AwaitUri uri0 \<Rightarrow> imageThen k img s | _ \<Rightarrow> s)"
| "step (UriRejected k err) s =
     (case taskAt k s of AwaitUri uri0 \<Rightarrow> uriOtherwise k uri0 err s | _ \<Rightarrow> s)"

fun run :: "event list \<Rightarrow> sys \<Rightarrow> sys" where
  "run [] s = s"
| "run (e # es) s = run es (step e s)"


section \<open>Observations on a run\<close>

text \<open>The chains that have not run to their end.\<close>

definition live :: "task list \<Rightarrow> nat" where
  "live ts = length (filter (\<lambda>t. t \<noteq> Finished) ts)"

fun isLoad :: "event \<Rightarrow> bool" where
  "isLoad (Load r) = True"
| "isLoad _ = False"

definition loads :: "event list \<Rightarrow> nat" where
  "loads es = length (filter isLoad es)"

text \<open>The calls of \<open>resolve\<close> and \<open>reject\<close> on the deferred.\<close>

fun isSettle :: "effect \<Rightarrow> bool" where
  "isSettle PromiseResolve = True"
| "isSettle (PromiseReject rej) = True"
| "isSettle _ = False"

definition settleCalls :: "effect list \<Rightarrow> nat" where
  "settleCalls tr = length (filter isSettle tr)"

definition resolveCalls :: "effect list \<Rightarrow> nat" where
  "resolveCalls tr = length (filter (\<lambda>x. x = PromiseResolve) tr)"

text \<open>The number of steps of a run at which the state of the deferred changes.\<close>

fun settlements :: "event list \<Rightarrow> sys \<Rightarrow> nat" where
  "settlements [] s = 0"
| "settlements (e # es) s =
     (if this_promise (step e s) \<noteq> this_promise s then 1 else 0) + settlements es (step e s)"

text \<open>The calls of the decoders.\<close>

fun isDispatch :: "effect \<Rightarrow> bool" where
  "isDispatch (Dispatch call) = True"
| "isDispatch _ = False"

definition dispatches :: "effect list \<Rightarrow> effect list" where
  "dispatches tr = filter isDispatch tr"

text \<open>How often the cache returned the buffer view \<open>r\<close>, and how often it was unloaded.\<close>

fun isAcquire :: "nat \<Rightarrow> effect \<Rightarrow> bool" where
  "isAcquire r (ResourceCacheLoadBufferView b keepResident r') = (r' = r)"
| "isAcquire r _ = False"

definition acquires :: "nat \<Rightarrow> effect list \<Rightarrow> nat" where
  "acquires r tr = length (filter (isAcquire r) tr)"

definition releases :: "nat \<Rightarrow> effect list \<Rightarrow> nat" where
  "releases r tr = length (filter (\<lambda>x. x = ResourceCacheUnload r) tr)"

text \<open>
  What a failure path leaves behind, from the state \<open>s\<close> to the state \<open>s'\<close>: the
  fields that \<open>unload\<close> clears are cleared, the state is \<open>FAILED\<close>, the buffer view
  that \<open>s\<close> held has been unloaded from the cache before \<open>reject\<close> is called with
  \<open>rej\<close>, and a deferred that was pending is rejected with \<open>rej\<close>.
\<close>

definition failedWith :: "sys \<Rightarrow> sys \<Rightarrow> rejection \<Rightarrow> bool" where
  "failedWith s s' rej =
     (this_bufferViewCacheResource s' = None \<and> this_uri s' = None \<and>
      this_image s' = None \<and> this_gltf s' = None \<and>
      this_state s' = FAILED \<and>
      trace s' =
        trace s @
        (case this_bufferViewCacheResource s of None \<Rightarrow> [] | Some r \<Rightarrow> [ResourceCacheUnload r]) @
        [PromiseReject rej] \<and>
      (this_promise s = None \<longrightarrow> this_promise s' = Some (Rejected rej)))"

text \<open>
  What a discarded result leaves behind: the entry is unloaded, holds no image, the
  deferred is as it was and no call of \<open>resolve\<close>, \<open>reject\<close> or of a decoder was made.
\<close>

definition discarded :: "sys \<Rightarrow> sys \<Rightarrow> bool" where
  "discarded s s' =
     (this_state s' = UNLOADED \<and> this_image s' = None \<and>
      this_promise s' = this_promise s \<and>
      settleCalls (trace s') = settleCalls (trace s) \<and>
      dispatches (trace s') = dispatches (trace s))"

text \<open>The resumptions with a result, as opposed to a rejection.\<close>

fun isResolved :: "event \<Rightarrow> bool" where
  "isResolved (BufferViewResolved k ta) = True"
| "isResolved (DecodeResolved k img) = True"
| "isResolved (UriResolved k img) = True"
| "isResolved _ = False"

subsection \<open>Invariants\<close>

text \<open>
  While \<open>load\<close> has been called once: there is one chain at most, the state
  \<open>LOADING\<close> means that it is pending, and while it is pending no image is stored and
  \<open>resolve\<close> has not been called.
\<close>

definition pendingInv :: "sys \<Rightarrow> bool" where
  "pendingInv s =
     (live (pending s) \<le> 1 \<and>
      (this_state s = LOADING \<longrightarrow> live (pending s) = 1) \<and>
      (live (pending s) = 1 \<longrightarrow>
         this_image s = None \<and> resolveCalls (trace s) = 0 \<and>
         this_promise s \<noteq> Some Resolved))"

text \<open>
  After \<open>unload\<close> was called on an entry with one chain at most: no image is stored,
  the entry is unloaded for as long as the chain is pending, the calls of the decoders
  are \<open>d\<close>, \<open>resolve\<close> has been called \<open>n\<close> times, and the promise is resolved only
  if \<open>p\<close>, the state of the deferred when \<open>unload\<close> was called, is.
\<close>

definition cancelledInv :: "effect list \<Rightarrow> nat \<Rightarrow> settlement option \<Rightarrow> sys \<Rightarrow> bool" where
  "cancelledInv d n p s =
     (live (pending s) \<le> 1 \<and> this_image s = None \<and>
      resolveCalls (trace s) = n \<and>
      (this_promise s = Some Resolved \<longrightarrow> p = Some Resolved) \<and>
      (live (pending s) = 1 \<longrightarrow> this_state s = UNLOADED) \<and>
      dispatches (trace s) = d)"

text \<open>The buffer view \<open>r\<close> was unloaded, or is still held, no more often than acquired.\<close>

definition releaseInv :: "nat \<Rightarrow> sys \<Rightarrow> bool" where
  "releaseInv r s =
     (releases r (trace s) + (if this_bufferViewCacheResource s = Some r then 1 else 0)
        \<le> acquires r (trace s))"

subsection \<open>Examples\<close>

text \<open>The source of a constructed entry: \<open>_bufferViewId\<close> and \<open>_uri\<close>.\<close>

definition derivedSource :: "error + entry \<Rightarrow> (nat option \<times> string option) option" where
  "derivedSource x =
     (case x of Inl err \<Rightarrow> None | Inr e \<Rightarrow> Some (this_bufferViewId e, this_uri e))"

definition exampleBase :: "string option \<Rightarrow> string" where
  "exampleBase u = (case u of None \<Rightarrow> ''/assets/''
                    | Some x \<Rightarrow> ''/assets/'' @ x)"

text \<open>The formats s3tc and pvrtc are supported, webp and etc1 are not.\<close>

definition s3tcAndPvrtc :: supportedImageFormats where
  "s3tcAndPvrtc =
     \<lparr>supportsWebP = False, supportsS3tc = True, supportsPvrtc = True, supportsEtc1 = False\<rparr>"

definition fromUri :: "string \<Rightarrow> imageSource" where
  "fromUri u = \<lparr>bufferView = None, uri = Some u\<rparr>"

text \<open>An image with a uri and with the four compressed variants, each with a uri.\<close>

definition allVariants :: gltfImage where
  "allVariants =
     \<lparr>bufferView = None, uri = Some ''image.png'',
      extras = Some \<lparr>compressedImage3DTiles = Some
        \<lparr>crunch = Some (fromUri ''image.crn''),
         s3tc = Some (fromUri ''image-s3tc.ktx''),
         pvrtc1 = Some (fromUri ''image-pvrtc.ktx''),
         etc1 = Some (fromUri ''image-etc1.ktx'')\<rparr>\<rparr>\<rparr>"

text \<open>An image in the buffer view 0, with one compressed variant that has a uri.\<close>

definition embeddedWithCrunchUri :: gltfImage where
  "embeddedWithCrunchUri =
     \<lparr>bufferView = Some 0, uri = None,
      extras = Some \<lparr>compressedImage3DTiles = Some
        \<lparr>crunch = Some (fromUri ''image.crn''),
         s3tc = None, pvrtc1 = None, etc1 = None\<rparr>\<rparr>\<rparr>"

text \<open>An image with a uri, with one compressed variant in the buffer view 3.\<close>

definition externalWithCrunchBufferView :: gltfImage where
  "externalWithCrunchBufferView =
     \<lparr>bufferView = None, uri = Some ''image.png'',
      extras = Some \<lparr>compressedImage3DTiles = Some
        \<lparr>crunch = Some \<lparr>bufferView = Some 3, uri = None\<rparr>,
         s3tc = None, pvrtc1 = None, etc1 = None\<rparr>\<rparr>\<rparr>"

text \<open>An image with a uri and nothing else.\<close>

definition plainImage :: "string \<Rightarrow> gltfImage" where
  "plainImage u = \<lparr>bufferView = None, uri = Some u, extras = None\<rparr>"

definition newExample :: "gltfImage \<Rightarrow> error + entry" where
  "newExample img =
     GltfImageCacheResource \<lparr>images = [img]\<rparr> 0 ''model.gltf'' exampleBase s3tcAndPvrtc ''key''"

text \<open>The entry of a constructor call that did not throw.\<close>

definition entryOf :: "error + entry \<Rightarrow> sys" where
  "entryOf x = newSys (projr x)"

text \<open>An image in the buffer view 0 and nothing else.\<close>

definition embeddedImage :: gltfImage where
  "embeddedImage = \<lparr>bufferView = Some 0, uri = None, extras = None\<rparr>"

definition pngHeader :: "byte list" where
  "pngHeader = [0x89, 0x50, 0x4e, 0x47, 0x0d, 0x0a, 0x1a, 0x0a, 0, 0, 0, 0x0d]"

definition ktxHeader :: "byte list" where
  "ktxHeader = [0xab, 0x4b, 0x54, 0x58, 0x20, 0x31, 0x31, 0xbb, 0x0d, 0x0a, 0x1a, 0x0a]"

section \<open>Format sniffing and dispatch of an embedded image\<close>

lemma take2_eq: "2 \<le> length xs \<Longrightarrow> (take 2 xs = [a, b]) = (xs ! 0 = a \<and> xs ! 1 = b)"
  by (cases xs; cases "tl xs") auto

lemma take4_eq:
  "4 \<le> length xs \<Longrightarrow>
   (take 4 xs = [a, b, c, d]) = (xs ! 0 = a \<and> xs ! 1 = b \<and> xs ! 2 = c \<and> xs ! 3 = d)"
  by (auto simp: list_eq_iff_nth_eq less_Suc_eq numeral_eq_Suc)

lemma drop8_take4_eq:
  "12 \<le> length xs \<Longrightarrow>
   (take 4 (drop 8 xs) = [a, b, c, d]) =
     (xs ! 8 = a \<and> xs ! 9 = b \<and> xs ! 10 = c \<and> xs ! 11 = d)"
  by (simp add: take4_eq)

text \<open>With twelve bytes or more, every element that the function reads is in range.\<close>

lemma getMimeTypeFromTypedArray_nth:
  assumes "12 \<le> length ta"
  shows "getMimeTypeFromTypedArray ta =
     (if ta ! 0 = 0x42 \<and> ta ! 1 = 0x49 then Inr ''image/bmp''
      else if ta ! 0 = 0x47 \<and> ta ! 1 = 0x49 then Inr ''image/gif''
      else if ta ! 0 = 0xff \<and> ta ! 1 = 0xd8 then Inr ''image/jpeg''
      else if ta ! 0 = 0x89 \<and> ta ! 1 = 0x50 then Inr ''image/png''
      else if ta ! 0 = 0xab \<and> ta ! 1 = 0x4b then Inr ''image/ktx''
      else if ta ! 0 = 0x48 \<and> ta ! 1 = 0x78 then Inr ''image/crn''
      else if ta ! 0 = 0x73 \<and> ta ! 1 = 0x42 then Inr ''image/basis''
      else if ta ! 0 = 0x52 \<and> ta ! 1 = 0x49 \<and> ta ! 2 = 0x46 \<and> ta ! 3 = 0x46 \<and>
              ta ! 8 = 0x57 \<and> ta ! 9 = 0x45 \<and> ta ! 10 = 0x42 \<and> ta ! 11 = 0x50
           then Inr ''image/webp''
      else Inl (RuntimeError ''Image data does not have valid header''))"
proof -
  have h: "elem (subarray 0 2 ta) 0 = Some (ta ! 0)" "elem (subarray 0 2 ta) 1 = Some (ta ! 1)"
    using assms by (auto simp: subarray_def elem_def min_def)
  have r: "elem (subarray 0 4 ta) 0 = Some (ta ! 0)" "elem (subarray 0 4 ta) 1 = Some (ta ! 1)"
     "elem (subarray 0 4 ta) 2 = Some (ta ! 2)" "elem (subarray 0 4 ta) 3 = Some (ta ! 3)"
    using assms by (auto simp: subarray_def elem_def min_def)
  have w: "elem (subarray 8 12 ta) 0 = Some (ta ! 8)" "elem (subarray 8 12 ta) 1 = Some (ta ! 9)"
     "elem (subarray 8 12 ta) 2 = Some (ta ! 10)" "elem (subarray 8 12 ta) 3 = Some (ta ! 11)"
    using assms by (auto simp: subarray_def elem_def min_def)
  show ?thesis
    unfolding getMimeTypeFromTypedArray_def Let_def h r w option.inject ..
qed

text \<open>
  Claim C6. For every byte sequence of at least 12 bytes, format sniffing returns BMP for
  the leading bytes 42 49 (hexadecimal), GIF for 47 49, JPEG for FF D8, PNG for 89 50,
  KTX for AB 4B, CRN for 48 78, Basis for 73 42, WebP when bytes 0 to 3 are 52 49 46 46
  and bytes 8 to 11 are 57 45 42 50, and otherwise fails with an error whose message
  states that the image data does not have a valid header.
\<close>

theorem getMimeTypeFromTypedArray_header_table:
  assumes len: "12 \<le> length ta"
  shows "(take 2 ta = [0x42, 0x49] \<longrightarrow> getMimeTypeFromTypedArray ta = Inr ''image/bmp'') \<and>
         (take 2 ta = [0x47, 0x49] \<longrightarrow> getMimeTypeFromTypedArray ta = Inr ''image/gif'') \<and>
         (take 2 ta = [0xff, 0xd8] \<longrightarrow> getMimeTypeFromTypedArray ta = Inr ''image/jpeg'') \<and>
         (take 2 ta = [0x89, 0x50] \<longrightarrow> getMimeTypeFromTypedArray ta = Inr ''image/png'') \<and>
         (take 2 ta = [0xab, 0x4b] \<longrightarrow> getMimeTypeFromTypedArray ta = Inr ''image/ktx'') \<and>
         (take 2 ta = [0x48, 0x78] \<longrightarrow> getMimeTypeFromTypedArray ta = Inr ''image/crn'') \<and>
         (take 2 ta = [0x73, 0x42] \<longrightarrow> getMimeTypeFromTypedArray ta = Inr ''image/basis'') \<and>
         (take 4 ta = [0x52, 0x49, 0x46, 0x46] \<and> take 4 (drop 8 ta) = [0x57, 0x45, 0x42, 0x50] \<longrightarrow>
            getMimeTypeFromTypedArray ta = Inr ''image/webp'') \<and>
         (take 2 ta \<notin> {[0x42, 0x49], [0x47, 0x49], [0xff, 0xd8], [0x89, 0x50], [0xab, 0x4b],
                        [0x48, 0x78], [0x73, 0x42]} \<and>
          \<not> (take 4 ta = [0x52, 0x49, 0x46, 0x46] \<and>
             take 4 (drop 8 ta) = [0x57, 0x45, 0x42, 0x50]) \<longrightarrow>
            getMimeTypeFromTypedArray ta =
              Inl (RuntimeError ''Image data does not have valid header''))"
proof -
  have l2: "2 \<le> length ta" and l4: "4 \<le> length ta" using len by simp_all
  show ?thesis
    by (simp add: getMimeTypeFromTypedArray_nth [OF len] take2_eq [OF l2] take4_eq [OF l4]
        drop8_take4_eq [OF len])
qed

theorem getMimeTypeFromTypedArray_header_table_witness:
  "getMimeTypeFromTypedArray [0x42, 0x49, 0, 0, 0, 0, 0, 0, 0, 0, 0, 0] = Inr ''image/bmp'' \<and>
   getMimeTypeFromTypedArray [0x47, 0x49, 0x46, 0x38, 0x39, 0x61, 0, 0, 0, 0, 0, 0] =
     Inr ''image/gif'' \<and>
   getMimeTypeFromTypedArray [0xff, 0xd8, 0xff, 0xe0, 0, 0, 0, 0, 0, 0, 0, 0] =
     Inr ''image/jpeg'' \<and>
   getMimeTypeFromTypedArray [0x89, 0x50, 0x4e, 0x47, 0x0d, 0x0a, 0x1a, 0x0a, 0, 0, 0, 0x0d] =
     Inr ''image/png'' \<and>
   getMimeTypeFromTypedArray
     [0xab, 0x4b, 0x54, 0x58, 0x20, 0x31, 0x31, 0xbb, 0x0d, 0x0a, 0x1a, 0x0a] =
     Inr ''image/ktx'' \<and>
   getMimeTypeFromTypedArray [0x48, 0x78, 0, 0, 0, 0, 0, 0, 0, 0, 0, 0] = Inr ''image/crn'' \<and>
   getMimeTypeFromTypedArray [0x73, 0x42, 0, 0, 0, 0, 0, 0, 0, 0, 0, 0] = Inr ''image/basis'' \<and>
   getMimeTypeFromTypedArray
     [0x52, 0x49, 0x46, 0x46, 0x24, 0, 0, 0, 0x57, 0x45, 0x42, 0x50, 0x56] =
     Inr ''image/webp'' \<and>
   getMimeTypeFromTypedArray [0x52, 0x49, 0x46, 0x46, 0x24, 0, 0, 0, 0x57, 0x41, 0x56, 0x45] =
     Inl (RuntimeError ''Image data does not have valid header'')"
  using
    getMimeTypeFromTypedArray_header_table [of "[0x42, 0x49, 0, 0, 0, 0, 0, 0, 0, 0, 0, 0]"]
    getMimeTypeFromTypedArray_header_table
      [of "[0x47, 0x49, 0x46, 0x38, 0x39, 0x61, 0, 0, 0, 0, 0, 0]"]
    getMimeTypeFromTypedArray_header_table
      [of "[0xff, 0xd8, 0xff, 0xe0, 0, 0, 0, 0, 0, 0, 0, 0]"]
    getMimeTypeFromTypedArray_header_table
      [of "[0x89, 0x50, 0x4e, 0x47, 0x0d, 0x0a, 0x1a, 0x0a, 0, 0, 0, 0x0d]"]
    getMimeTypeFromTypedArray_header_table
      [of "[0xab, 0x4b, 0x54, 0x58, 0x20, 0x31, 0x31, 0xbb, 0x0d, 0x0a, 0x1a, 0x0a]"]
    getMimeTypeFromTypedArray_header_table [of "[0x48, 0x78, 0, 0, 0, 0, 0, 0, 0, 0, 0, 0]"]
    getMimeTypeFromTypedArray_header_table [of "[0x73, 0x42, 0, 0, 0, 0, 0, 0, 0, 0, 0, 0]"]
    getMimeTypeFromTypedArray_header_table
      [of "[0x52, 0x49, 0x46, 0x46, 0x24, 0, 0, 0, 0x57, 0x45, 0x42, 0x50, 0x56]"]
    getMimeTypeFromTypedArray_header_table
      [of "[0x52, 0x49, 0x46, 0x46, 0x24, 0, 0, 0, 0x57, 0x41, 0x56, 0x45]"]
  by simp

text \<open>
  Claim C7. For every byte sequence whose sniffed type is KTX or CRN, the decode path of
  an embedded image calls the KTX or the CRN decoder; for every other sniffed type it
  calls the generic decoder with the bytes, the sniffed type and \<open>flipY: false\<close>. It is
  the call that the continuation of the buffer view makes when the entry is not unloaded.
\<close>

theorem loadImageFromBufferTypedArray_dispatch:
  assumes "getMimeTypeFromTypedArray ta = Inr m"
  shows "loadImageFromBufferTypedArray ta =
           Inr (if m = ''image/ktx'' then LoadKTX (TypedArray ta)
                else if m = ''image/crn'' then LoadCRN (TypedArray ta)
                else LoadImageFromTypedArray ta m False) \<and>
         (this_state s \<noteq> UNLOADED \<longrightarrow>
            trace (bufferViewThen k r ta s) =
              trace s @ [Dispatch (if m = ''image/ktx'' then LoadKTX (TypedArray ta)
                                   else if m = ''image/crn'' then LoadCRN (TypedArray ta)
                                   else LoadImageFromTypedArray ta m False)])"
  using assms by (simp add: loadImageFromBufferTypedArray_def bufferViewThen_def setTask_def)

lemmas example_defs = newExample_def GltfImageCacheResource_def checkCompressed_def
  useVariant_def Let_def entryOf_def newSys_def entry.defs sys.defs plainImage_def
  embeddedImage_def allVariants_def fromUri_def s3tcAndPvrtc_def

lemmas step_defs = load_def loadFromBufferView_def loadFromUri_def prototype_unload_def
  unload_def taskAt_def setTask_def bufferViewThen_def imageThen_def embeddedOtherwise_def
  uriOtherwise_def handleError_def reject_def resolve_def getError_def toString_def

lemma newExample_Inr: "newExample img = Inr (projr (newExample img))"
  by (simp add: newExample_def GltfImageCacheResource_def Let_def)

lemma sniff_png: "getMimeTypeFromTypedArray pngHeader = Inr ''image/png''"
  by (simp add: getMimeTypeFromTypedArray_def subarray_def elem_def pngHeader_def)

lemma sniff_ktx: "getMimeTypeFromTypedArray ktxHeader = Inr ''image/ktx''"
  by (simp add: getMimeTypeFromTypedArray_def subarray_def elem_def ktxHeader_def)

lemma decode_png:
  "loadImageFromBufferTypedArray pngHeader = Inr (LoadImageFromTypedArray pngHeader ''image/png'' False)"
  by (simp add: loadImageFromBufferTypedArray_def sniff_png)

theorem loadImageFromBufferTypedArray_dispatch_witness:
  "getMimeTypeFromTypedArray pngHeader = Inr ''image/png'' \<and>
   loadImageFromBufferTypedArray pngHeader =
     Inr (LoadImageFromTypedArray pngHeader ''image/png'' False) \<and>
   getMimeTypeFromTypedArray ktxHeader = Inr ''image/ktx'' \<and>
   loadImageFromBufferTypedArray ktxHeader = Inr (LoadKTX (TypedArray ktxHeader))"
  using loadImageFromBufferTypedArray_dispatch [OF sniff_png]
    loadImageFromBufferTypedArray_dispatch [OF sniff_ktx] sniff_png sniff_ktx
  by simp

section \<open>Dispatch of an image with a uri\<close>

lemma matchTerms_chars:
  "matchTerms (map PatternChar cs @ ts) i rest =
     (\<exists>a b. rest = a @ b \<and> map canonicalize a = map canonicalize cs \<and>
            matchTerms ts (i + length cs) b)"
proof (induction cs arbitrary: i rest)
  case Nil
  then show ?case by simp
next
  case (Cons c cs)
  show ?case
  proof (cases rest)
    case Nil
    then show ?thesis by simp
  next
    case (Cons x xs)
    show ?thesis
    proof
      assume "matchTerms (map PatternChar (c # cs) @ ts) i rest"
      then have cx: "canonicalize x = canonicalize c"
        and m: "matchTerms (map PatternChar cs @ ts) (Suc i) xs"
        using Cons by simp_all
      from m obtain a b where "xs = a @ b" "map canonicalize a = map canonicalize cs"
        "matchTerms ts (Suc i + length cs) b"
        using Cons.IH by blast
      then have "rest = (x # a) @ b \<and> map canonicalize (x # a) = map canonicalize (c # cs) \<and>
          matchTerms ts (i + length (c # cs)) b"
        using Cons cx by simp
      then show "\<exists>a b. rest = a @ b \<and> map canonicalize a = map canonicalize (c # cs) \<and>
          matchTerms ts (i + length (c # cs)) b"
        by blast
    next
      assume "\<exists>a b. rest = a @ b \<and> map canonicalize a = map canonicalize (c # cs) \<and>
          matchTerms ts (i + length (c # cs)) b"
      then obtain a b where ab: "rest = a @ b" "map canonicalize a = map canonicalize (c # cs)"
          "matchTerms ts (i + length (c # cs)) b"
        by blast
      from ab(2) obtain y ys where a: "a = y # ys" "canonicalize y = canonicalize c"
          "map canonicalize ys = map canonicalize cs"
        by (cases a) auto
      have "matchTerms (map PatternChar cs @ ts) (Suc i) (ys @ b)"
        using Cons.IH [of "Suc i" "ys @ b"] a(3) ab(3) by auto
      then show "matchTerms (map PatternChar (c # cs) @ ts) i rest"
        using ab(1) a by simp
    qed
  qed
qed

lemma map_prefix_split:
  "(\<exists>a b. rest = a @ b \<and> map f a = map f p) = prefix (map f p) (map f rest)"
proof
  assume "\<exists>a b. rest = a @ b \<and> map f a = map f p"
  then obtain a b where ab: "rest = a @ b" "map f a = map f p" by blast
  have "map f rest = map f p @ map f b" unfolding ab(1) map_append ab(2) ..
  then show "prefix (map f p) (map f rest)" by (rule prefixI)
next
  assume "prefix (map f p) (map f rest)"
  then obtain zs where "map f rest = map f p @ zs" by (rule prefixE)
  then have "\<exists>us vs. rest = us @ vs \<and> map f p = map f us \<and> zs = map f vs"
    by (rule map_eq_append_conv [THEN iffD1])
  then obtain a b where "rest = a @ b" "map f p = map f a" by blast
  then have "rest = a @ b \<and> map f a = map f p" by simp
  then show "\<exists>a b. rest = a @ b \<and> map f a = map f p" by blast
qed

lemma map_suffix_split:
  "(\<exists>a b. url = a @ b \<and> map f b = map f q) = suffix (map f q) (map f url)"
proof
  assume "\<exists>a b. url = a @ b \<and> map f b = map f q"
  then obtain a b where ab: "url = a @ b" "map f b = map f q" by blast
  have "map f url = map f a @ map f q" unfolding ab(1) map_append ab(2) ..
  then show "suffix (map f q) (map f url)" by (rule suffixI)
next
  assume "suffix (map f q) (map f url)"
  then obtain zs where "map f url = zs @ map f q" by (rule suffixE)
  then have "\<exists>us vs. url = us @ vs \<and> zs = map f us \<and> map f q = map f vs"
    by (rule map_eq_append_conv [THEN iffD1])
  then obtain a b where "url = a @ b" "map f q = map f b" by blast
  then have "url = a @ b \<and> map f b = map f q" by simp
  then show "\<exists>a b. url = a @ b \<and> map f b = map f q" by blast
qed

lemma match_prefix_alternative:
  "matchTerms (AssertStart # map PatternChar p) i rest =
     (i = 0 \<and> prefix (map canonicalize p) (map canonicalize rest))"
proof -
  have "matchTerms (map PatternChar p @ []) i rest =
      (\<exists>a b. rest = a @ b \<and> map canonicalize a = map canonicalize p)"
    unfolding matchTerms_chars by simp
  then have "matchTerms (map PatternChar p) i rest =
      prefix (map canonicalize p) (map canonicalize rest)"
    unfolding map_prefix_split by simp
  then show ?thesis by simp
qed

lemma match_suffix_alternative:
  "matchTerms (map PatternChar q @ [AssertEnd]) i rest =
     (map canonicalize rest = map canonicalize q)"
  unfolding matchTerms_chars by auto

lemma searchFrom_split:
  "searchFrom alts i rest =
     (\<exists>a b. rest = a @ b \<and> matchAlternatives alts (i + length a) b)"
proof (induction rest arbitrary: i)
  case Nil
  then show ?case by simp
next
  case (Cons x xs)
  show ?case
  proof
    assume "searchFrom alts i (x # xs)"
    then consider "matchAlternatives alts i (x # xs)" | "searchFrom alts (Suc i) xs"
      by auto
    then show "\<exists>a b. x # xs = a @ b \<and> matchAlternatives alts (i + length a) b"
    proof cases
      case 1
      then have "x # xs = [] @ (x # xs) \<and> matchAlternatives alts (i + length ([]::string)) (x # xs)"
        by simp
      then show ?thesis by blast
    next
      case 2
      then obtain a b where "xs = a @ b" "matchAlternatives alts (Suc i + length a) b"
        using Cons.IH by blast
      then have "x # xs = (x # a) @ b \<and> matchAlternatives alts (i + length (x # a)) b"
        by simp
      then show ?thesis by blast
    qed
  next
    assume "\<exists>a b. x # xs = a @ b \<and> matchAlternatives alts (i + length a) b"
    then obtain a b where ab: "x # xs = a @ b" "matchAlternatives alts (i + length a) b"
      by blast
    show "searchFrom alts i (x # xs)"
    proof (cases a)
      case Nil
      then have "b = x # xs" using ab by simp
      then show ?thesis using ab(2) Nil by simp
    next
      case (Cons y ys)
      then have "xs = ys @ b" "matchAlternatives alts (Suc i + length ys) b"
        using ab by simp_all
      then have "searchFrom alts (Suc i) xs"
        using Cons.IH by blast
      then show ?thesis by simp
    qed
  qed
qed

lemma regexTest_prefix_or_suffix:
  "regexTest [AssertStart # map PatternChar p, map PatternChar q @ [AssertEnd]] url =
     (hasPrefixIgnoringCase p url \<or> hasSuffixIgnoringCase q url)"
proof -
  have alts: "matchAlternatives [AssertStart # map PatternChar p, map PatternChar q @ [AssertEnd]] i b =
      ((i = 0 \<and> prefix (map canonicalize p) (map canonicalize b)) \<or>
       map canonicalize b = map canonicalize q)" for i b
    by (simp add: matchAlternatives_def match_prefix_alternative match_suffix_alternative
        del: matchTerms.simps)
  have "regexTest [AssertStart # map PatternChar p, map PatternChar q @ [AssertEnd]] url =
      (\<exists>a b. url = a @ b \<and>
         ((length a = 0 \<and> prefix (map canonicalize p) (map canonicalize b)) \<or>
          map canonicalize b = map canonicalize q))"
    unfolding regexTest_def searchFrom_split alts by simp
  also have "\<dots> = (prefix (map canonicalize p) (map canonicalize url) \<or>
      (\<exists>a b. url = a @ b \<and> map canonicalize b = map canonicalize q))"
    by auto
  finally show ?thesis
    unfolding map_suffix_split hasPrefixIgnoringCase_def hasSuffixIgnoringCase_def .
qed

text \<open>
  Claim C8. For every load from a uri, the decoder is chosen by matching the url of the
  derived resource without regard to case: a prefix \<open>data:image/ktx\<close> or a suffix
  \<open>.ktx\<close> gives the KTX decoder; else a prefix \<open>data:image/crn\<close> or a suffix \<open>.crn\<close>
  gives the CRN decoder; every other url is fetched as a generic image.
\<close>

theorem loadFromUri_dispatch:
  "trace (loadFromUri s) =
     trace s @
       [Dispatch
          (let url = this_baseResource s (this_uri s)
           in if hasPrefixIgnoringCase ''data:image/ktx'' url \<or> hasSuffixIgnoringCase ''.ktx'' url
                then LoadKTX (Resource url)
              else if hasPrefixIgnoringCase ''data:image/crn'' url \<or>
                      hasSuffixIgnoringCase ''.crn'' url
                then LoadCRN (Resource url)
              else FetchImage url)]"
  unfolding loadFromUri_def loadImageFromUri_def ktxRegex_def crnRegex_def
    regexTest_prefix_or_suffix
  by (simp add: Let_def)

theorem loadFromUri_dispatch_witness:
  "trace (step (Load 1) (entryOf (newExample (plainImage ''texture.KTX'')))) =
     [Dispatch (LoadKTX (Resource ''/assets/texture.KTX''))] \<and>
   trace (step (Load 1) (entryOf (newExample (plainImage ''texture.png'')))) =
     [Dispatch (FetchImage ''/assets/texture.png'')]"
  using loadFromUri_dispatch [of "entryOf (newExample (plainImage ''texture.KTX''))"]
    loadFromUri_dispatch [of "entryOf (newExample (plainImage ''texture.png''))"]
  by (simp add: example_defs load_def exampleBase_def hasPrefixIgnoringCase_def
      hasSuffixIgnoringCase_def canonicalize_def suffix_to_prefix)

section \<open>The entry, its continuations and its calls\<close>

lemma unload_fields:
  "this_state (unload s) = this_state s"
  "this_bufferViewCacheResource (unload s) = None"
  "this_uri (unload s) = None"
  "this_image (unload s) = None"
  "this_gltf (unload s) = None"
  "this_promise (unload s) = this_promise s"
  "this_bufferViewId (unload s) = this_bufferViewId s"
  "pending (unload s) = pending s"
  "trace (unload s) =
     trace s @ (case this_bufferViewCacheResource s of None \<Rightarrow> [] | Some r \<Rightarrow> [ResourceCacheUnload r])"
  by (simp_all add: unload_def Let_def split: option.splits)

lemma unload_unload: "unload (unload s) = unload s"
  by (simp add: unload_def Let_def split: option.splits)

lemma prototype_unload_fields:
  "this_state (prototype_unload s) = UNLOADED"
  "this_bufferViewCacheResource (prototype_unload s) = None"
  "this_uri (prototype_unload s) = None"
  "this_image (prototype_unload s) = None"
  "this_gltf (prototype_unload s) = None"
  "this_promise (prototype_unload s) = this_promise s"
  "this_bufferViewId (prototype_unload s) = this_bufferViewId s"
  "pending (prototype_unload s) = pending s"
  "trace (prototype_unload s) =
     trace s @ (case this_bufferViewCacheResource s of None \<Rightarrow> [] | Some r \<Rightarrow> [ResourceCacheUnload r])"
  by (simp_all add: prototype_unload_def unload_fields)

lemma prototype_unload_twice: "prototype_unload (prototype_unload s) = prototype_unload s"
  by (simp add: prototype_unload_def unload_def Let_def split: option.splits)

lemma handleError_fields:
  "this_state (handleError err msg s) = FAILED"
  "this_bufferViewCacheResource (handleError err msg s) = None"
  "this_uri (handleError err msg s) = None"
  "this_image (handleError err msg s) = None"
  "this_gltf (handleError err msg s) = None"
  "this_promise (handleError err msg s) =
     (case this_promise s of None \<Rightarrow> Some (Rejected (GetError err msg)) | Some v \<Rightarrow> Some v)"
  "this_bufferViewId (handleError err msg s) = this_bufferViewId s"
  "pending (handleError err msg s) = pending s"
  "trace (handleError err msg s) =
     trace s @ (case this_bufferViewCacheResource s of None \<Rightarrow> [] | Some r \<Rightarrow> [ResourceCacheUnload r])
       @ [PromiseReject (GetError err msg)]"
  by (simp_all add: handleError_def reject_def getError_def unload_fields)

lemma setTask_fields:
  "this_state (setTask k t s) = this_state s"
  "this_bufferViewCacheResource (setTask k t s) = this_bufferViewCacheResource s"
  "this_uri (setTask k t s) = this_uri s"
  "this_image (setTask k t s) = this_image s"
  "this_gltf (setTask k t s) = this_gltf s"
  "this_promise (setTask k t s) = this_promise s"
  "this_bufferViewId (setTask k t s) = this_bufferViewId s"
  "pending (setTask k t s) = (pending s)[k := t]"
  "trace (setTask k t s) = trace s"
  by (simp_all add: setTask_def)

lemma failedWith_handleError:
  "failedWith s (setTask k Finished (handleError err msg s)) (GetError err msg)"
  by (simp add: failedWith_def setTask_fields handleError_fields)

lemma taskAt_prototype_unload: "taskAt k (prototype_unload s) = taskAt k s"
  by (simp add: taskAt_def prototype_unload_fields)

lemma live_append: "live (ts @ [t]) = live ts + (if t = Finished then 0 else 1)"
  by (simp add: live_def)

lemma live_finish:
  "k < length ts \<Longrightarrow> ts ! k \<noteq> Finished \<Longrightarrow> Suc (live (ts[k := Finished])) = live ts"
proof (induction ts arbitrary: k)
  case Nil
  then show ?case by simp
next
  case (Cons t ts)
  then show ?case by (cases k) (auto simp: live_def)
qed

lemma live_keep:
  "k < length ts \<Longrightarrow> ts ! k \<noteq> Finished \<Longrightarrow> t \<noteq> Finished \<Longrightarrow> live (ts[k := t]) = live ts"
proof (induction ts arbitrary: k)
  case Nil
  then show ?case by simp
next
  case (Cons t ts)
  then show ?case by (cases k) (auto simp: live_def)
qed

lemma taskAt_live:
  "taskAt k s = t \<Longrightarrow> t \<noteq> Finished \<Longrightarrow> k < length (pending s) \<and> pending s ! k = t"
  by (auto simp: taskAt_def split: if_splits)

lemma settleCalls_append: "settleCalls (xs @ ys) = settleCalls xs + settleCalls ys"
  by (simp add: settleCalls_def)

lemma settleCalls_unloaded:
  "settleCalls (case b of None \<Rightarrow> [] | Some r \<Rightarrow> [ResourceCacheUnload r]) = 0"
  by (simp add: settleCalls_def split: option.splits)

lemma settleCalls_single:
  "settleCalls [PromiseResolve] = 1" "settleCalls [PromiseReject rej] = 1"
  "settleCalls [Dispatch c] = 0" "settleCalls [ResourceCacheUnload r] = 0"
  "settleCalls [ResourceCacheLoadBufferView b kr r] = 0" "settleCalls [] = 0"
  by (simp_all add: settleCalls_def)

lemma load_fields:
  "pending (load r s) =
     pending s @ [if this_bufferViewId s \<noteq> None then AwaitBufferView r else AwaitUri (this_uri s)]"
  "this_state (load r s) = LOADING"
  "this_image (load r s) = this_image s"
  "this_promise (load r s) = this_promise s"
  "this_bufferViewId (load r s) = this_bufferViewId s"
  "this_bufferViewCacheResource (load r s) =
     (if this_bufferViewId s \<noteq> None then Some r else this_bufferViewCacheResource s)"
  "trace (load r s) =
     trace s @ [if this_bufferViewId s \<noteq> None
                then ResourceCacheLoadBufferView (this_bufferViewId s) False r
                else Dispatch (loadImageFromUri (this_baseResource s (this_uri s)))]"
  by (simp_all add: load_def loadFromBufferView_def loadFromUri_def Let_def)

lemma resolve_fields:
  "this_state (resolve s) = this_state s"
  "this_image (resolve s) = this_image s"
  "this_bufferViewCacheResource (resolve s) = this_bufferViewCacheResource s"
  "this_uri (resolve s) = this_uri s"
  "this_gltf (resolve s) = this_gltf s"
  "this_bufferViewId (resolve s) = this_bufferViewId s"
  "pending (resolve s) = pending s"
  "trace (resolve s) = trace s @ [PromiseResolve]"
  "this_promise (resolve s) = (case this_promise s of None \<Rightarrow> Some Resolved | Some v \<Rightarrow> Some v)"
  by (simp_all add: resolve_def)

lemma publish_fields:
  "this_state (resolve ((unload s)\<lparr>this_image := Some img, this_state := READY\<rparr>)) = READY"
  "this_image (resolve ((unload s)\<lparr>this_image := Some img, this_state := READY\<rparr>)) = Some img"
  "this_bufferViewCacheResource (resolve ((unload s)\<lparr>this_image := Some img, this_state := READY\<rparr>)) = None"
  "this_bufferViewId (resolve ((unload s)\<lparr>this_image := Some img, this_state := READY\<rparr>)) = this_bufferViewId s"
  "pending (resolve ((unload s)\<lparr>this_image := Some img, this_state := READY\<rparr>)) = pending s"
  "trace (resolve ((unload s)\<lparr>this_image := Some img, this_state := READY\<rparr>)) =
     trace s @ (case this_bufferViewCacheResource s of None \<Rightarrow> [] | Some r \<Rightarrow> [ResourceCacheUnload r])
       @ [PromiseResolve]"
  "this_promise (resolve ((unload s)\<lparr>this_image := Some img, this_state := READY\<rparr>)) = (case this_promise s of None \<Rightarrow> Some Resolved | Some v \<Rightarrow> Some v)"
  by (simp_all add: resolve_fields unload_fields)

text \<open>The shapes of a step.\<close>

lemma step_cases [case_names idle load unload discard progress publish fail]:
  obtains
    (idle) "step e s = s"
  | (load) r where "e = Load r" "step e s = load r s"
  | (unload) "e = Unload" "step e s = prototype_unload s"
  | (discard) k where "k < length (pending s)" "pending s ! k \<noteq> Finished"
      "this_state s = UNLOADED" "step e s = setTask k Finished (unload s)"
  | (progress) k t tr where "k < length (pending s)" "pending s ! k \<noteq> Finished"
      "this_state s \<noteq> UNLOADED" "t \<noteq> Finished" "tr = [] \<or> (\<exists>c. tr = [Dispatch c])"
      "step e s = setTask k t (s\<lparr>trace := trace s @ tr\<rparr>)"
  | (publish) k img where "k < length (pending s)" "pending s ! k \<noteq> Finished"
      "this_state s \<noteq> UNLOADED" "step e s = setTask k Finished (resolve ((unload s)\<lparr>this_image := Some img, this_state := READY\<rparr>))"
  | (fail) k err msg where "k < length (pending s)" "pending s ! k \<noteq> Finished"
      "step e s = setTask k Finished (handleError err msg s)"
proof (cases e)
  case (Load r)
  then show ?thesis using load by simp
next
  case Unload
  then show ?thesis using unload by simp
next
  case (BufferViewResolved k ta)
  show ?thesis
  proof (cases "taskAt k s")
    case (AwaitBufferView r)
    then have kl: "k < length (pending s)" "pending s ! k \<noteq> Finished"
      using taskAt_live [of k s] by auto
    show ?thesis
    proof (cases "this_state s = UNLOADED")
      case True
      then show ?thesis
        using discard [OF kl] BufferViewResolved AwaitBufferView by (simp add: bufferViewThen_def)
    next
      case False
      show ?thesis
      proof (cases "loadImageFromBufferTypedArray ta")
        case (Inl err)
        then show ?thesis
          using progress [OF kl False, of "AwaitOtherwise err" "[]"] False
            BufferViewResolved AwaitBufferView
          by (simp add: bufferViewThen_def)
      next
        case (Inr c)
        then show ?thesis
          using progress [OF kl False, of "AwaitDecode r" "[Dispatch c]"] False
            BufferViewResolved AwaitBufferView
          by (simp add: bufferViewThen_def)
      qed
    qed
  qed (use idle BufferViewResolved in simp_all)
next
  case (BufferViewRejected k err)
  show ?thesis
  proof (cases "taskAt k s")
    case (AwaitBufferView r)
    then have kl: "k < length (pending s)" "pending s ! k \<noteq> Finished"
      using taskAt_live [of k s] by auto
    show ?thesis
      using fail [OF kl] BufferViewRejected AwaitBufferView by (simp add: embeddedOtherwise_def)
  qed (use idle BufferViewRejected in simp_all)
next
  case (DecodeResolved k img)
  show ?thesis
  proof (cases "taskAt k s")
    case (AwaitDecode r)
    then have kl: "k < length (pending s)" "pending s ! k \<noteq> Finished"
      using taskAt_live [of k s] by auto
    show ?thesis
    proof (cases "this_state s = UNLOADED")
      case True
      then show ?thesis
        using discard [OF kl] DecodeResolved AwaitDecode by (simp add: imageThen_def)
    next
      case False
      then show ?thesis
        using publish [OF kl] DecodeResolved AwaitDecode by (simp add: imageThen_def)
    qed
  qed (use idle DecodeResolved in simp_all)
next
  case (DecodeRejected k err)
  show ?thesis
  proof (cases "taskAt k s")
    case (AwaitDecode r)
    then have kl: "k < length (pending s)" "pending s ! k \<noteq> Finished"
      using taskAt_live [of k s] by auto
    show ?thesis
      using fail [OF kl] DecodeRejected AwaitDecode by (simp add: embeddedOtherwise_def)
  qed (use idle DecodeRejected in simp_all)
next
  case (OtherwiseCalled k)
  show ?thesis
  proof (cases "taskAt k s")
    case (AwaitOtherwise err)
    then have kl: "k < length (pending s)" "pending s ! k \<noteq> Finished"
      using taskAt_live [of k s] by auto
    show ?thesis
      using fail [OF kl] OtherwiseCalled AwaitOtherwise by (simp add: embeddedOtherwise_def)
  qed (use idle OtherwiseCalled in simp_all)
next
  case (UriResolved k img)
  show ?thesis
  proof (cases "taskAt k s")
    case (AwaitUri u)
    then have kl: "k < length (pending s)" "pending s ! k \<noteq> Finished"
      using taskAt_live [of k s] by auto
    show ?thesis
    proof (cases "this_state s = UNLOADED")
      case True
      then show ?thesis
        using discard [OF kl] UriResolved AwaitUri by (simp add: imageThen_def)
    next
      case False
      then show ?thesis
        using publish [OF kl] UriResolved AwaitUri by (simp add: imageThen_def)
    qed
  qed (use idle UriResolved in simp_all)
next
  case (UriRejected k err)
  show ?thesis
  proof (cases "taskAt k s")
    case (AwaitUri u)
    then have kl: "k < length (pending s)" "pending s ! k \<noteq> Finished"
      using taskAt_live [of k s] by auto
    show ?thesis
      using fail [OF kl] UriRejected AwaitUri by (simp add: uriOtherwise_def)
  qed (use idle UriRejected in simp_all)
qed

lemma step_settleCalls_live:
  "settleCalls (trace (step e s)) + live (pending (step e s)) \<le>
     settleCalls (trace s) + live (pending s) + (if isLoad e then 1 else 0)"
proof (cases e s rule: step_cases)
  case idle
  then show ?thesis by simp
next
  case (load r)
  then show ?thesis
    by (simp add: load_fields live_append settleCalls_append settleCalls_single)
next
  case unload
  then show ?thesis
    by (simp add: prototype_unload_fields settleCalls_append settleCalls_unloaded)
next
  case (discard k)
  then show ?thesis
    using live_finish [of k "pending s"]
    by (simp add: setTask_fields unload_fields settleCalls_append settleCalls_unloaded)
next
  case (progress k t tr)
  then show ?thesis
    using live_keep [of k "pending s" t]
    by (auto simp: setTask_fields settleCalls_append settleCalls_single)
next
  case (publish k img)
  then show ?thesis
    using live_finish [of k "pending s"]
    by (simp add: setTask_fields publish_fields settleCalls_append settleCalls_unloaded
        settleCalls_single)
next
  case (fail k err msg)
  then show ?thesis
    using live_finish [of k "pending s"]
    by (simp add: setTask_fields handleError_fields settleCalls_append settleCalls_unloaded
        settleCalls_single)
qed

lemma run_settleCalls_live:
  "settleCalls (trace (run es s)) + live (pending (run es s)) \<le>
     settleCalls (trace s) + live (pending s) + loads es"
proof (induction es arbitrary: s)
  case Nil
  then show ?case by (simp add: loads_def)
next
  case (Cons e es)
  have "settleCalls (trace (run es (step e s))) + live (pending (run es (step e s))) \<le>
      settleCalls (trace (step e s)) + live (pending (step e s)) + loads es"
    by (rule Cons.IH)
  also have "\<dots> \<le> settleCalls (trace s) + live (pending s) + (if isLoad e then 1 else 0) + loads es"
    using step_settleCalls_live [of e s] by simp
  also have "\<dots> = settleCalls (trace s) + live (pending s) + loads (e # es)"
    by (simp add: loads_def)
  finally show ?case by simp
qed

subsection \<open>The deferred\<close>

lemma step_promise_settled:
  "this_promise s \<noteq> None \<Longrightarrow> this_promise (step e s) = this_promise s"
  by (cases e s rule: step_cases)
    (auto simp: load_fields prototype_unload_fields setTask_fields unload_fields publish_fields
      handleError_fields)

lemma run_promise_settled:
  "this_promise s \<noteq> None \<Longrightarrow> this_promise (run es s) = this_promise s"
proof (induction es arbitrary: s)
  case Nil
  then show ?case by simp
next
  case (Cons e es)
  then show ?case using step_promise_settled [of s e] by simp
qed

lemma settlements_settled: "this_promise s \<noteq> None \<Longrightarrow> settlements es s = 0"
proof (induction es arbitrary: s)
  case Nil
  then show ?case by simp
next
  case (Cons e es)
  then show ?case using step_promise_settled [of s e] by simp
qed

lemma settlements_le_1: "settlements es s \<le> 1"
proof (induction es arbitrary: s)
  case Nil
  then show ?case by simp
next
  case (Cons e es)
  show ?case
  proof (cases "this_promise (step e s) = this_promise s")
    case True
    then show ?thesis using Cons.IH [of "step e s"] by simp
  next
    case False
    then have "this_promise s = None" using step_promise_settled [of s e] by (cases "this_promise s") auto
    then have "this_promise (step e s) \<noteq> None" using False by simp
    then have "settlements es (step e s) = 0" by (rule settlements_settled)
    then show ?thesis by simp
  qed
qed

subsection \<open>The buffer view held by the entry\<close>

lemma releases_append: "releases r (xs @ ys) = releases r xs + releases r ys"
  by (simp add: releases_def)

lemma acquires_append: "acquires r (xs @ ys) = acquires r xs + acquires r ys"
  by (simp add: acquires_def)

lemma releases_unloaded:
  "releases r (case b of None \<Rightarrow> [] | Some x \<Rightarrow> [ResourceCacheUnload x]) = (if b = Some r then 1 else 0)"
  by (simp add: releases_def split: option.splits)

lemma acquires_unloaded:
  "acquires r (case b of None \<Rightarrow> [] | Some x \<Rightarrow> [ResourceCacheUnload x]) = 0"
  by (simp add: acquires_def split: option.splits)

lemma releases_single:
  "releases r [PromiseResolve] = 0" "releases r [PromiseReject rej] = 0"
  "releases r [Dispatch c] = 0" "releases r [ResourceCacheLoadBufferView b kr x] = 0"
  "releases r [] = 0"
  by (simp_all add: releases_def)

lemma acquires_single:
  "acquires r [PromiseResolve] = 0" "acquires r [PromiseReject rej] = 0"
  "acquires r [Dispatch c] = 0"
  "acquires r [ResourceCacheLoadBufferView b kr x] = (if x = r then 1 else 0)"
  "acquires r [] = 0"
  by (simp_all add: acquires_def)

lemmas count_simps = releases_append acquires_append releases_unloaded acquires_unloaded
  releases_single acquires_single

lemma step_releaseInv: "releaseInv r s \<Longrightarrow> releaseInv r (step e s)"
proof (cases e s rule: step_cases)
  case idle
  then show "releaseInv r s \<Longrightarrow> releaseInv r (step e s)" by simp
next
  case (load x)
  then show "releaseInv r s \<Longrightarrow> releaseInv r (step e s)"
    by (auto simp: releaseInv_def load_fields count_simps)
next
  case unload
  then show "releaseInv r s \<Longrightarrow> releaseInv r (step e s)"
    by (auto simp: releaseInv_def prototype_unload_fields count_simps)
next
  case (discard k)
  then show "releaseInv r s \<Longrightarrow> releaseInv r (step e s)"
    by (auto simp: releaseInv_def setTask_fields unload_fields count_simps)
next
  case (progress k t tr)
  then show "releaseInv r s \<Longrightarrow> releaseInv r (step e s)"
    by (auto simp: releaseInv_def setTask_fields count_simps)
next
  case (publish k img)
  then show "releaseInv r s \<Longrightarrow> releaseInv r (step e s)"
    by (auto simp: releaseInv_def setTask_fields publish_fields count_simps)
next
  case (fail k err msg)
  then show "releaseInv r s \<Longrightarrow> releaseInv r (step e s)"
    by (auto simp: releaseInv_def setTask_fields handleError_fields count_simps)
qed

lemma run_releaseInv: "releaseInv r s \<Longrightarrow> releaseInv r (run es s)"
  by (induction es arbitrary: s) (simp_all add: step_releaseInv)

lemma dispatches_append: "dispatches (xs @ ys) = dispatches xs @ dispatches ys"
  by (simp add: dispatches_def)

lemma dispatches_unloaded:
  "dispatches (case b of None \<Rightarrow> [] | Some r \<Rightarrow> [ResourceCacheUnload r]) = []"
  by (simp add: dispatches_def split: option.splits)

lemma dispatches_single:
  "dispatches [PromiseResolve] = []" "dispatches [PromiseReject rej] = []"
  "dispatches [ResourceCacheUnload r] = []" "dispatches [] = []"
  by (simp_all add: dispatches_def)

lemma resolve_notin_unloaded:
  "PromiseResolve \<notin> set (case b of None \<Rightarrow> [] | Some r \<Rightarrow> [ResourceCacheUnload r])"
  by (simp split: option.splits)

lemma live_le_1_finish:
  assumes "live ts \<le> 1" "k < length ts" "ts ! k \<noteq> Finished"
  shows "live (ts[k := Finished]) = 0" "live ts = 1"
  using live_finish [OF assms(2,3)] assms(1) by simp_all

lemma constructor_fields:
  assumes "GltfImageCacheResource g i gr b f key = Inr e"
  shows "this_state e = UNLOADED" "this_image e = None" "this_promise e = None"
    "this_bufferViewCacheResource e = None" "this_gltf e = Some g"
    "(this_bufferViewId e, this_uri e) = checkCompressed f (images g ! i)"
    "i < length (images g)"
  using assms by (auto simp: GltfImageCacheResource_def Let_def split: if_splits)

lemma newSys_fields:
  "this_state (newSys e) = this_state e" "this_image (newSys e) = this_image e"
  "this_promise (newSys e) = this_promise e"
  "this_bufferViewCacheResource (newSys e) = this_bufferViewCacheResource e"
  "this_bufferViewId (newSys e) = this_bufferViewId e" "this_uri (newSys e) = this_uri e"
  "this_gltf (newSys e) = this_gltf e" "this_baseResource (newSys e) = this_baseResource e"
  "pending (newSys e) = []" "trace (newSys e) = []"
  by (simp_all add: newSys_def entry.defs sys.defs)

lemma discarded_step:
  assumes "isResolved ev" "this_state s = UNLOADED" "this_image s = None"
  shows "discarded s (step ev s)"
  using assms
  by (cases ev)
    (auto simp: discarded_def bufferViewThen_def imageThen_def setTask_fields unload_fields
      settleCalls_append settleCalls_unloaded dispatches_append dispatches_unloaded
      split: task.splits)

section \<open>Failure paths\<close>

lemma failedWith_embedded:
  "failedWith s (embeddedOtherwise k err s) (GetError err ''Failed to load embedded image'')"
  unfolding embeddedOtherwise_def by (rule failedWith_handleError)

lemma failedWith_uri:
  "failedWith s (uriOtherwise k u err s) (GetError err (''Failed to load image:'' @ toString u))"
  unfolding uriOtherwise_def by (rule failedWith_handleError)

text \<open>
  Claim C3. On every asynchronous failure path (the buffer view is rejected, the decoder
  is rejected, the sniffing throws, the load from a uri is rejected) the entry first does
  what \<open>unload\<close> does (it unloads the buffer view it holds from the cache and clears the
  uri, the image and the glTF), then sets the state to \<open>FAILED\<close>, then rejects the
  promise; for a load from a uri the message of the rejection ends with the uri that was
  read when \<open>load\<close> was called.
\<close>

theorem failure_paths_clean_up_then_reject:
  "(taskAt k s = AwaitBufferView r \<longrightarrow>
      failedWith s (step (BufferViewRejected k err) s)
        (GetError err ''Failed to load embedded image'')) \<and>
   (taskAt k s = AwaitDecode r \<longrightarrow>
      failedWith s (step (DecodeRejected k err) s)
        (GetError err ''Failed to load embedded image'')) \<and>
   (taskAt k s = AwaitOtherwise err \<longrightarrow>
      failedWith s (step (OtherwiseCalled k) s)
        (GetError err ''Failed to load embedded image'')) \<and>
   (taskAt k s = AwaitUri u \<longrightarrow>
      failedWith s (step (UriRejected k err) s)
        (GetError err (''Failed to load image:'' @ toString u)) \<and>
      (\<forall>x. u = Some x \<longrightarrow> sublist x (''Failed to load image:'' @ toString u))) \<and>
   (this_bufferViewId s = None \<longrightarrow>
      taskAt (length (pending s)) (step (Load r) s) = AwaitUri (this_uri s))"
proof -
  have a: "taskAt k s = AwaitBufferView r \<Longrightarrow>
      failedWith s (step (BufferViewRejected k err) s)
        (GetError err ''Failed to load embedded image'')"
    using failedWith_embedded [of s k err] by simp
  have b: "taskAt k s = AwaitDecode r \<Longrightarrow>
      failedWith s (step (DecodeRejected k err) s)
        (GetError err ''Failed to load embedded image'')"
    using failedWith_embedded [of s k err] by simp
  have c: "taskAt k s = AwaitOtherwise err \<Longrightarrow>
      failedWith s (step (OtherwiseCalled k) s)
        (GetError err ''Failed to load embedded image'')"
    using failedWith_embedded [of s k err] by simp
  have d: "taskAt k s = AwaitUri u \<Longrightarrow>
      failedWith s (step (UriRejected k err) s)
        (GetError err (''Failed to load image:'' @ toString u))"
    using failedWith_uri [of s k u err] by simp
  have e: "sublist x (''Failed to load image:'' @ toString u)" if "u = Some x" for x
    unfolding that toString_def option.case by (rule sublist_append_leftI)
  have f: "this_bufferViewId s = None \<Longrightarrow>
      taskAt (length (pending s)) (step (Load r) s) = AwaitUri (this_uri s)"
    by (simp add: taskAt_def load_fields)
  show ?thesis using a b c d e f by blast
qed

theorem failure_paths_clean_up_then_reject_witness:
  "taskAt 0 (step (Load 1) (entryOf (newExample (plainImage ''image.png'')))) =
     AwaitUri (Some ''image.png'') \<and>
   failedWith (step (Load 1) (entryOf (newExample (plainImage ''image.png''))))
     (run [Load 1, UriRejected 0 (RuntimeError ''404'')]
        (entryOf (newExample (plainImage ''image.png''))))
     (GetError (RuntimeError ''404'') ''Failed to load image:image.png'') \<and>
   sublist ''image.png'' ''Failed to load image:image.png'' \<and>
   taskAt 0 (step (Load 1) (entryOf (newExample embeddedImage))) = AwaitBufferView 1 \<and>
   failedWith (step (Load 1) (entryOf (newExample embeddedImage)))
     (run [Load 1, BufferViewRejected 0 (RuntimeError ''404'')]
        (entryOf (newExample embeddedImage)))
     (GetError (RuntimeError ''404'') ''Failed to load embedded image'')"
proof -
  have u: "taskAt 0 (step (Load 1) (entryOf (newExample (plainImage ''image.png'')))) =
      AwaitUri (Some ''image.png'')"
    by (simp add: example_defs step_defs)
  have b: "taskAt 0 (step (Load 1) (entryOf (newExample embeddedImage))) = AwaitBufferView 1"
    by (simp add: example_defs step_defs)
  show ?thesis
    using u b
      failure_paths_clean_up_then_reject
        [of 0 "step (Load 1) (entryOf (newExample (plainImage ''image.png'')))" 1
          "RuntimeError ''404''" "Some ''image.png''"]
      failure_paths_clean_up_then_reject
        [of 0 "step (Load 1) (entryOf (newExample embeddedImage))" 1 "RuntimeError ''404''"]
    by (simp add: toString_def)
qed

section \<open>unload\<close>

text \<open>
  Claim C9. In every state, \<open>unload()\<close> sets the state to \<open>UNLOADED\<close> and clears the
  buffer view (unloading it from the cache when there is one), the uri, the image and
  the glTF; a second call changes nothing; and over every run of an entry the cache is
  asked to unload a buffer view no more often than it returned it.
\<close>

theorem unload_from_any_state:
  "this_state (step Unload s) = UNLOADED \<and>
   this_bufferViewCacheResource (step Unload s) = None \<and>
   this_uri (step Unload s) = None \<and>
   this_image (step Unload s) = None \<and>
   this_gltf (step Unload s) = None \<and>
   trace (step Unload s) =
     trace s @
     (case this_bufferViewCacheResource s of None \<Rightarrow> [] | Some r \<Rightarrow> [ResourceCacheUnload r]) \<and>
   step Unload (step Unload s) = step Unload s \<and>
   (GltfImageCacheResource g i gr b f key = Inr e \<longrightarrow>
      releases r (trace (run es (newSys e))) \<le> acquires r (trace (run es (newSys e))))"
proof -
  have "releases r (trace (run es (newSys e))) \<le> acquires r (trace (run es (newSys e)))"
    if new: "GltfImageCacheResource g i gr b f key = Inr e"
  proof -
    have "releaseInv r (newSys e)"
      using constructor_fields [OF new]
      by (simp add: releaseInv_def newSys_fields releases_def acquires_def)
    then have "releaseInv r (run es (newSys e))" by (rule run_releaseInv)
    then show ?thesis by (simp add: releaseInv_def split: if_splits)
  qed
  then show ?thesis
    by (simp add: prototype_unload_fields prototype_unload_twice)
qed

theorem unload_from_any_state_witness:
  "newExample embeddedImage = Inr (projr (newExample embeddedImage)) \<and>
   releases 5 (trace (run [Load 5, Unload, Unload] (entryOf (newExample embeddedImage)))) \<le>
   acquires 5 (trace (run [Load 5, Unload, Unload] (entryOf (newExample embeddedImage)))) \<and>
   trace (run [Load 5, Unload, Unload] (entryOf (newExample embeddedImage))) =
     [ResourceCacheLoadBufferView (Some 0) False 5, ResourceCacheUnload 5]"
proof -
  have new: "GltfImageCacheResource \<lparr>images = [embeddedImage]\<rparr> 0 ''model.gltf'' exampleBase
      s3tcAndPvrtc ''key'' = Inr (projr (newExample embeddedImage))"
    using newExample_Inr [of embeddedImage] by (simp add: newExample_def)
  have tr: "trace (run [Load 5, Unload, Unload] (entryOf (newExample embeddedImage))) =
     [ResourceCacheLoadBufferView (Some 0) False 5, ResourceCacheUnload 5]"
    by (simp add: example_defs step_defs)
  show ?thesis
    using new tr
      unload_from_any_state [of _ "\<lparr>images = [embeddedImage]\<rparr>" 0 "''model.gltf''" exampleBase
        s3tcAndPvrtc "''key''" "projr (newExample embeddedImage)" 5 "[Load 5, Unload, Unload]"]
    by (simp add: entryOf_def newExample_def del: run.simps step.simps)
qed

text \<open>
  Claim C10. When \<open>unload()\<close> is called in the state \<open>LOADING\<close> and the pending step
  then fails, the failure handler still runs: the state becomes \<open>FAILED\<close>, over the
  \<open>UNLOADED\<close> set by \<open>unload()\<close>, and the promise is rejected. The check of
  \<open>UNLOADED\<close> guards the continuations with a result only, which discard it.
\<close>

theorem failure_after_unload_still_fails:
  assumes "this_state s = LOADING"
  shows "this_state (step Unload s) = UNLOADED \<and>
   (taskAt k s = AwaitBufferView r \<longrightarrow>
      failedWith (step Unload s) (step (BufferViewRejected k err) (step Unload s))
        (GetError err ''Failed to load embedded image'') \<and>
      discarded (step Unload s) (step (BufferViewResolved k ta) (step Unload s))) \<and>
   (taskAt k s = AwaitDecode r \<longrightarrow>
      failedWith (step Unload s) (step (DecodeRejected k err) (step Unload s))
        (GetError err ''Failed to load embedded image'') \<and>
      discarded (step Unload s) (step (DecodeResolved k img) (step Unload s))) \<and>
   (taskAt k s = AwaitUri u \<longrightarrow>
      failedWith (step Unload s) (step (UriRejected k err) (step Unload s))
        (GetError err (''Failed to load image:'' @ toString u)) \<and>
      discarded (step Unload s) (step (UriResolved k img) (step Unload s)))"
proof -
  define s1 where "s1 = step Unload s"
  have s1: "this_state s1 = UNLOADED" "this_image s1 = None" "taskAt k s1 = taskAt k s"
    by (simp_all add: s1_def prototype_unload_fields taskAt_prototype_unload)
  have d: "discarded s1 (step ev s1)" if "isResolved ev" for ev
    using that s1(1,2) by (rule discarded_step)
  have a: "taskAt k s = AwaitBufferView r \<Longrightarrow>
      failedWith s1 (step (BufferViewRejected k err) s1)
        (GetError err ''Failed to load embedded image'')"
    using failedWith_embedded [of s1 k err] s1(3) by simp
  have b: "taskAt k s = AwaitDecode r \<Longrightarrow>
      failedWith s1 (step (DecodeRejected k err) s1)
        (GetError err ''Failed to load embedded image'')"
    using failedWith_embedded [of s1 k err] s1(3) by simp
  have c: "taskAt k s = AwaitUri u \<Longrightarrow>
      failedWith s1 (step (UriRejected k err) s1)
        (GetError err (''Failed to load image:'' @ toString u))"
    using failedWith_uri [of s1 k u err] s1(3) by simp
  show ?thesis
    unfolding s1_def [symmetric]
    using s1(1) a b c d [of "BufferViewResolved k ta"] d [of "DecodeResolved k img"]
      d [of "UriResolved k img"]
    by simp
qed

theorem failure_after_unload_still_fails_witness:
  "this_state (step (Load 1) (entryOf (newExample (plainImage ''image.png'')))) = LOADING \<and>
   taskAt 0 (step (Load 1) (entryOf (newExample (plainImage ''image.png'')))) =
     AwaitUri (Some ''image.png'') \<and>
   this_state (step Unload (step (Load 1) (entryOf (newExample (plainImage ''image.png''))))) =
     UNLOADED \<and>
   failedWith (step Unload (step (Load 1) (entryOf (newExample (plainImage ''image.png'')))))
     (step (UriRejected 0 (RuntimeError ''404''))
        (step Unload (step (Load 1) (entryOf (newExample (plainImage ''image.png''))))))
     (GetError (RuntimeError ''404'') ''Failed to load image:image.png'')"
proof -
  have loading: "this_state (step (Load 1) (entryOf (newExample (plainImage ''image.png'')))) = LOADING"
    by (simp add: example_defs step_defs)
  have u: "taskAt 0 (step (Load 1) (entryOf (newExample (plainImage ''image.png'')))) =
      AwaitUri (Some ''image.png'')"
    by (simp add: example_defs step_defs)
  show ?thesis
    using loading u
      failure_after_unload_still_fails [OF loading, of 0 1 "RuntimeError ''404''" pngHeader
        "Image 9" "Some ''image.png''"]
    by (simp add: toString_def del: step.simps)
qed

section \<open>The promise\<close>

text \<open>
  Claim C2. For every entry and every sequence of calls of \<open>load()\<close>, \<open>unload()\<close> and
  resumptions, the promise is settled at most once: the state of the deferred changes at
  one step at most, and once it is settled no later step changes it. An entry makes no
  more calls of \<open>resolve\<close> and \<open>reject\<close> than \<open>load()\<close> was called.
\<close>

theorem completion_settles_at_most_once:
  "settlements es s \<le> 1 \<and>
   (this_promise s \<noteq> None \<longrightarrow>
      this_promise (run es s) = this_promise s \<and> settlements es s = 0) \<and>
   settleCalls (trace (run es (newSys e))) \<le> loads es"
proof -
  have a: "settlements es s \<le> 1" by (rule settlements_le_1)
  have b: "this_promise s \<noteq> None \<Longrightarrow> this_promise (run es s) = this_promise s"
    by (rule run_promise_settled)
  have c: "this_promise s \<noteq> None \<Longrightarrow> settlements es s = 0"
    by (rule settlements_settled)
  have d: "settleCalls (trace (run es (newSys e))) \<le> loads es"
    using run_settleCalls_live [of es "newSys e"]
    by (simp add: newSys_fields settleCalls_def live_def)
  show ?thesis using a b c d by blast
qed

theorem completion_settles_at_most_once_witness:
  "this_promise (run [Load 1, UriRejected 0 (RuntimeError ''404'')]
      (entryOf (newExample (plainImage ''image.png'')))) \<noteq> None \<and>
   this_promise (run [Load 2, UriResolved 1 (Image 9)]
      (run [Load 1, UriRejected 0 (RuntimeError ''404'')]
         (entryOf (newExample (plainImage ''image.png''))))) =
   this_promise (run [Load 1, UriRejected 0 (RuntimeError ''404'')]
      (entryOf (newExample (plainImage ''image.png'')))) \<and>
   settlements [Load 2, UriResolved 1 (Image 9)]
     (run [Load 1, UriRejected 0 (RuntimeError ''404'')]
        (entryOf (newExample (plainImage ''image.png'')))) = 0"
proof -
  have settled: "this_promise (run [Load 1, UriRejected 0 (RuntimeError ''404'')]
      (entryOf (newExample (plainImage ''image.png'')))) \<noteq> None"
    by (simp add: example_defs step_defs)
  show ?thesis
    using settled
      completion_settles_at_most_once [of "[Load 2, UriResolved 1 (Image 9)]"
        "run [Load 1, UriRejected 0 (RuntimeError ''404'')]
           (entryOf (newExample (plainImage ''image.png'')))"]
    by (simp del: run.simps step.simps settlements.simps)
qed

section \<open>The source chosen by the constructor\<close>

text \<open>
  Claim C4 as stated fails: with the four compressed variants present and the formats
  s3tc and pvrtc supported (webp and etc1 not), the constructor takes the source of
  \<open>crunch\<close>, the first variant, and not the one of \<open>s3tc\<close>, the second.
\<close>

theorem variant_B_not_selected_counterexample:
  "derivedSource (newExample allVariants) = Some (None, Some ''image.crn'') \<and>
   derivedSource (newExample allVariants) \<noteq> Some (None, Some ''image-s3tc.ktx'')"
  by (simp add: derivedSource_def newExample_def GltfImageCacheResource_def checkCompressed_def Let_def
      allVariants_def s3tcAndPvrtc_def useVariant_def fromUri_def)

text \<open>
  Claim C4, amended. \<open>crunch\<close> is tested under the same flag as \<open>s3tc\<close>. For an image
  with the variants \<open>s3tc\<close>, \<open>pvrtc1\<close> and \<open>etc1\<close>, constructed with the formats s3tc and
  pvrtc supported and etc1 not: when \<open>crunch\<close> is present too, the source of \<open>crunch\<close> is
  taken (its \<open>bufferView\<close> when it has one, else its \<open>uri\<close>); when \<open>crunch\<close> is absent,
  the source of \<open>s3tc\<close> is taken; the one of \<open>pvrtc1\<close> in neither case.
\<close>

theorem first_gated_variant_selected:
  assumes "GltfImageCacheResource g i gr b f key = Inr e"
    and "extras (images g ! i) = Some ex" and "compressedImage3DTiles ex = Some c"
    and "s3tc c = Some vb" and "pvrtc1 c = Some vc" and "etc1 c = Some vd"
    and "supportsS3tc f" and "supportsPvrtc f" and "\<not> supportsEtc1 f"
  shows "case crunch c of
           Some va \<Rightarrow>
             (if bufferView va \<noteq> None then this_bufferViewId e = bufferView va
              else this_uri e = uri va)
         | None \<Rightarrow>
             (if bufferView vb \<noteq> None then this_bufferViewId e = bufferView vb
              else this_uri e = uri vb)"
proof -
  have src: "(this_bufferViewId e, this_uri e) = checkCompressed f (images g ! i)"
    using assms(1) by (rule constructor_fields)
  show ?thesis
  proof (cases "crunch c")
    case None
    then have "checkCompressed f (images g ! i) =
        useVariant vb (bufferView (images g ! i), uri (images g ! i))"
      using assms by (simp add: checkCompressed_def)
    then show ?thesis
      using src None by (auto simp: useVariant_def split: if_splits)
  next
    case (Some va)
    then have "checkCompressed f (images g ! i) =
        useVariant va (bufferView (images g ! i), uri (images g ! i))"
      using assms by (simp add: checkCompressed_def)
    then show ?thesis
      using src Some by (auto simp: useVariant_def split: if_splits)
  qed
qed

theorem first_gated_variant_selected_witness:
  "this_uri (projr (newExample allVariants)) = Some ''image.crn''"
proof -
  have new: "GltfImageCacheResource \<lparr>images = [allVariants]\<rparr> 0 ''model.gltf'' exampleBase
      s3tcAndPvrtc ''key'' = Inr (projr (newExample allVariants))"
    using newExample_Inr [of allVariants] by (simp add: newExample_def)
  have ex: "extras (images \<lparr>images = [allVariants]\<rparr> ! 0) =
      Some \<lparr>compressedImage3DTiles = Some
        \<lparr>crunch = Some (fromUri ''image.crn''),
         s3tc = Some (fromUri ''image-s3tc.ktx''),
         pvrtc1 = Some (fromUri ''image-pvrtc.ktx''),
         etc1 = Some (fromUri ''image-etc1.ktx'')\<rparr>\<rparr>"
    by (simp add: allVariants_def)
  show ?thesis
    using first_gated_variant_selected [OF new ex, of _ "fromUri ''image-s3tc.ktx''"
        "fromUri ''image-pvrtc.ktx''" "fromUri ''image-etc1.ktx''"]
    by (simp add: s3tcAndPvrtc_def fromUri_def)
qed

text \<open>
  Claim C5 at an image in the buffer view 0 whose variant \<open>crunch\<close> has a uri: the
  constructor stores the uri of the variant and keeps the buffer view of the image, and
  \<open>load()\<close> asks the cache for that buffer view; the uri of the variant is not
  loaded. In the other direction, a variant with a buffer view for an image with a uri,
  \<open>load()\<close> does use the buffer view of the variant.
\<close>

theorem variant_uri_ignored_when_base_embedded:
  "derivedSource (newExample embeddedWithCrunchUri) = Some (Some 0, Some ''image.crn'') \<and>
   trace (step (Load 7) (entryOf (newExample embeddedWithCrunchUri))) =
     [ResourceCacheLoadBufferView (Some 0) False 7] \<and>
   derivedSource (newExample externalWithCrunchBufferView) = Some (Some 3, Some ''image.png'') \<and>
   trace (step (Load 7) (entryOf (newExample externalWithCrunchBufferView))) =
     [ResourceCacheLoadBufferView (Some 3) False 7]"
  by (simp add: derivedSource_def newExample_def GltfImageCacheResource_def checkCompressed_def Let_def
      embeddedWithCrunchUri_def externalWithCrunchBufferView_def s3tcAndPvrtc_def useVariant_def
      fromUri_def entryOf_def newSys_def entry.defs sys.defs load_def loadFromBufferView_def)

section \<open>unload during a load\<close>

lemma resolveCalls_append: "resolveCalls (xs @ ys) = resolveCalls xs + resolveCalls ys"
  by (simp add: resolveCalls_def)

lemma resolveCalls_unloaded:
  "resolveCalls (case b of None \<Rightarrow> [] | Some r \<Rightarrow> [ResourceCacheUnload r]) = 0"
  by (simp add: resolveCalls_def split: option.splits)

lemma resolveCalls_single:
  "resolveCalls [PromiseResolve] = 1" "resolveCalls [PromiseReject rej] = 0"
  "resolveCalls [Dispatch c] = 0" "resolveCalls [ResourceCacheUnload r] = 0"
  "resolveCalls [ResourceCacheLoadBufferView b kr r] = 0" "resolveCalls [] = 0"
  by (simp_all add: resolveCalls_def)

lemma resolveCalls_0: "(resolveCalls tr = 0) = (PromiseResolve \<notin> set tr)"
  by (auto simp: resolveCalls_def filter_empty_conv)

lemmas resolveCalls_simps = resolveCalls_append resolveCalls_unloaded resolveCalls_single

lemma step_pendingInv:
  assumes inv: "pendingInv s" and e: "\<not> isLoad e"
  shows "pendingInv (step e s)"
proof (cases e s rule: step_cases)
  case idle
  then show ?thesis using inv by simp
next
  case (load r)
  then show ?thesis using e by simp
next
  case unload
  then show ?thesis
    using inv by (simp add: pendingInv_def prototype_unload_fields resolveCalls_simps)
next
  case (discard k)
  then show ?thesis
    using inv live_le_1_finish [of "pending s" k]
    by (simp add: pendingInv_def setTask_fields unload_fields)
next
  case (progress k t tr)
  then show ?thesis
    using inv live_keep [of k "pending s" t]
    by (auto simp: pendingInv_def setTask_fields resolveCalls_simps)
next
  case (publish k img)
  then show ?thesis
    using inv live_le_1_finish [of "pending s" k]
    by (simp add: pendingInv_def setTask_fields publish_fields)
next
  case (fail k err msg)
  then show ?thesis
    using inv live_le_1_finish [of "pending s" k]
    by (simp add: pendingInv_def setTask_fields handleError_fields)
qed

lemma run_pendingInv:
  "pendingInv s \<Longrightarrow> \<forall>x\<in>set es. \<not> isLoad x \<Longrightarrow> pendingInv (run es s)"
  by (induction es arbitrary: s) (simp_all add: step_pendingInv)

lemma pendingInv_first_load:
  assumes "GltfImageCacheResource g i gr b f key = Inr e"
  shows "pendingInv (step (Load r) (newSys e))"
  using constructor_fields [OF assms]
  by (simp add: pendingInv_def load_fields newSys_fields live_def resolveCalls_def)

lemma step_cancelledInv:
  assumes inv: "cancelledInv d n p s" and e: "\<not> isLoad e"
  shows "cancelledInv d n p (step e s)"
proof (cases e s rule: step_cases)
  case idle
  then show ?thesis using inv by simp
next
  case (load r)
  then show ?thesis using e by simp
next
  case unload
  then show ?thesis
    using inv
    by (simp add: cancelledInv_def prototype_unload_fields resolveCalls_simps
        dispatches_append dispatches_unloaded)
next
  case (discard k)
  then show ?thesis
    using inv live_le_1_finish [of "pending s" k]
    by (simp add: cancelledInv_def setTask_fields unload_fields resolveCalls_simps
        dispatches_append dispatches_unloaded)
next
  case (progress k t tr)
  then have "live (pending s) = 1"
    using inv live_le_1_finish [of "pending s" k] by (simp add: cancelledInv_def)
  then show ?thesis
    using inv progress by (simp add: cancelledInv_def)
next
  case (publish k img)
  then have "live (pending s) = 1"
    using inv live_le_1_finish [of "pending s" k] by (simp add: cancelledInv_def)
  then show ?thesis
    using inv publish by (simp add: cancelledInv_def)
next
  case (fail k err msg)
  then show ?thesis
    using inv live_le_1_finish [of "pending s" k]
    by (auto simp: cancelledInv_def setTask_fields handleError_fields resolveCalls_simps
        dispatches_append dispatches_unloaded dispatches_single split: option.splits)
qed

lemma run_cancelledInv:
  "cancelledInv d n p s \<Longrightarrow> \<forall>x\<in>set es. \<not> isLoad x \<Longrightarrow> cancelledInv d n p (run es s)"
  by (induction es arbitrary: s) (simp_all add: step_cancelledInv)

lemma cancelledInv_unload:
  assumes "live (pending s) \<le> 1"
  shows "cancelledInv (dispatches (trace s)) (resolveCalls (trace s)) (this_promise s)
           (step Unload s)"
  using assms
  by (simp add: cancelledInv_def prototype_unload_fields resolveCalls_simps
      dispatches_append dispatches_unloaded)

text \<open>
  Claim C1 as stated fails. The continuations test the state of the entry, not the call of
  \<open>load()\<close> they belong to. First run: \<open>unload()\<close> is called in the state \<open>LOADING\<close>,
  \<open>load()\<close> is called again, and the chain of the first \<open>load()\<close> then resumes with a
  result: it sees \<open>LOADING\<close>, stores the image and resolves the promise. Second run:
  \<open>load()\<close> was called twice before \<open>unload()\<close>, the first chain is rejected, which sets
  \<open>FAILED\<close>, and the second chain then resumes with a result: it sees \<open>FAILED\<close> and
  stores the image.
\<close>

theorem reload_before_resumption_counterexample:
  "this_state (run [Load 1] (entryOf (newExample (plainImage ''image.png'')))) = LOADING \<and>
   taskAt 0 (run [Load 1] (entryOf (newExample (plainImage ''image.png'')))) =
     AwaitUri (Some ''image.png'') \<and>
   this_state (run [Load 1, Unload] (entryOf (newExample (plainImage ''image.png'')))) =
     UNLOADED \<and>
   this_state (run [Load 1, Unload, Load 2] (entryOf (newExample (plainImage ''image.png'')))) =
     LOADING \<and>
   this_state (run [Load 1, Unload, Load 2, UriResolved 0 (Image 9)]
     (entryOf (newExample (plainImage ''image.png'')))) = READY \<and>
   this_image (run [Load 1, Unload, Load 2, UriResolved 0 (Image 9)]
     (entryOf (newExample (plainImage ''image.png'')))) = Some (Image 9) \<and>
   this_promise (run [Load 1, Unload, Load 2, UriResolved 0 (Image 9)]
     (entryOf (newExample (plainImage ''image.png'')))) = Some Resolved \<and>
   this_state (run [Load 1, Load 2] (entryOf (newExample (plainImage ''image.png'')))) =
     LOADING \<and>
   this_state (run [Load 1, Load 2, Unload, UriRejected 0 (RuntimeError ''404'')]
     (entryOf (newExample (plainImage ''image.png'')))) = FAILED \<and>
   this_state (run [Load 1, Load 2, Unload, UriRejected 0 (RuntimeError ''404''),
                    UriResolved 1 (Image 9)]
     (entryOf (newExample (plainImage ''image.png'')))) = READY \<and>
   this_image (run [Load 1, Load 2, Unload, UriRejected 0 (RuntimeError ''404''),
                    UriResolved 1 (Image 9)]
     (entryOf (newExample (plainImage ''image.png'')))) = Some (Image 9)"
  by (simp add: example_defs step_defs)

text \<open>
  Claim C1, amended. For every entry with one pending chain at most on which \<open>unload()\<close>
  is called while the state is \<open>LOADING\<close>, before the pending step has delivered its
  result, and on which \<open>load()\<close> is not called again afterwards: whatever else follows,
  no image is stored, \<open>resolve\<close> is not called, the promise does not become resolved and
  no decoder is called; and for as long as the chain is pending the state is \<open>UNLOADED\<close>,
  so that a continuation with a result sees \<open>UNLOADED\<close> and discards the result.
\<close>

theorem unload_during_load_discards:
  assumes loading: "this_state s = LOADING"
    and one: "live (pending s) \<le> 1"
    and es: "\<forall>x\<in>set es. \<not> isLoad x"
  shows "let s' = run es (step Unload s)
         in this_image s' = None \<and>
            resolveCalls (trace s') = resolveCalls (trace s) \<and>
            (this_promise s' = Some Resolved \<longrightarrow> this_promise s = Some Resolved) \<and>
            dispatches (trace s') = dispatches (trace s) \<and>
            (live (pending s') \<noteq> 0 \<longrightarrow>
               this_state s' = UNLOADED \<and> (\<forall>ev. isResolved ev \<longrightarrow> discarded s' (step ev s')))"
proof -
  define s' where "s' = run es (step Unload s)"
  have "cancelledInv (dispatches (trace s)) (resolveCalls (trace s)) (this_promise s)
      (step Unload s)"
    using one by (rule cancelledInv_unload)
  then have c: "cancelledInv (dispatches (trace s)) (resolveCalls (trace s)) (this_promise s) s'"
    unfolding s'_def using es by (rule run_cancelledInv)
  have "live (pending s') \<noteq> 0 \<Longrightarrow> \<forall>ev. isResolved ev \<longrightarrow> discarded s' (step ev s')"
    using c discarded_step [of _ s'] by (auto simp: cancelledInv_def)
  then show ?thesis
    using c unfolding s'_def [symmetric] Let_def
    by (auto simp: cancelledInv_def)
qed

text \<open>
  For an entry on which \<open>load\<close> is called once, the state \<open>LOADING\<close> means one pending
  chain and a pending promise, so that after \<open>unload\<close> the promise is never resolved.
\<close>

lemma loaded_once_never_resolved:
  assumes new: "GltfImageCacheResource g i gr b f key = Inr e"
    and es1: "\<forall>x\<in>set es1. \<not> isLoad x" and es2: "\<forall>x\<in>set es2. \<not> isLoad x"
    and loading: "this_state (run es1 (step (Load r) (newSys e))) = LOADING"
  shows "this_image (run es2 (step Unload (run es1 (step (Load r) (newSys e))))) = None"
    and "PromiseResolve \<notin> set (trace (run es2 (step Unload (run es1 (step (Load r) (newSys e))))))"
    and "this_promise (run es2 (step Unload (run es1 (step (Load r) (newSys e))))) \<noteq> Some Resolved"
proof -
  define s where "s = run es1 (step (Load r) (newSys e))"
  define s' where "s' = run es2 (step Unload s)"
  have p: "pendingInv s"
    unfolding s_def using pendingInv_first_load [OF new] es1 by (rule run_pendingInv)
  have l: "this_state s = LOADING" using loading by (simp add: s_def)
  have one: "live (pending s) \<le> 1" and n: "resolveCalls (trace s) = 0"
    and pr: "this_promise s \<noteq> Some Resolved"
    using p l by (simp_all add: pendingInv_def)
  have "cancelledInv (dispatches (trace s)) (resolveCalls (trace s)) (this_promise s)
      (step Unload s)"
    using one by (rule cancelledInv_unload)
  then have c: "cancelledInv (dispatches (trace s)) (resolveCalls (trace s)) (this_promise s) s'"
    unfolding s'_def using es2 by (rule run_cancelledInv)
  show "this_image (run es2 (step Unload (run es1 (step (Load r) (newSys e))))) = None"
    using c by (simp add: cancelledInv_def s'_def s_def)
  show "PromiseResolve \<notin> set (trace (run es2 (step Unload (run es1 (step (Load r) (newSys e))))))"
    using c n resolveCalls_0 [of "trace s'"] by (simp add: cancelledInv_def s'_def s_def)
  show "this_promise (run es2 (step Unload (run es1 (step (Load r) (newSys e))))) \<noteq> Some Resolved"
    using c pr by (auto simp: cancelledInv_def s'_def s_def)
qed

theorem unload_during_load_discards_witness:
  "this_state (run [Load 1, BufferViewResolved 0 pngHeader] (entryOf (newExample embeddedImage)))
     = LOADING \<and>
   this_image (run [Load 1, BufferViewResolved 0 pngHeader, Unload, DecodeResolved 0 (Image 9)]
     (entryOf (newExample embeddedImage))) = None \<and>
   this_promise (run [Load 1, BufferViewResolved 0 pngHeader, Unload, DecodeResolved 0 (Image 9)]
     (entryOf (newExample embeddedImage))) = None"
proof -
  define s where "s = run [Load 1, BufferViewResolved 0 pngHeader] (entryOf (newExample embeddedImage))"
  have s: "this_state s = LOADING" "live (pending s) \<le> 1" "this_promise s = None"
    by (simp_all add: s_def example_defs step_defs decode_png live_def)
  have es: "\<forall>x\<in>set [DecodeResolved 0 (Image 9)]. \<not> isLoad x" by simp
  have tail: "this_promise (run [DecodeResolved 0 (Image 9)] (step Unload s)) \<noteq> Some Resolved"
     "this_image (run [DecodeResolved 0 (Image 9)] (step Unload s)) = None"
    using unload_during_load_discards [OF s(1,2) es] s(3) by (simp_all add: Let_def)
  have "this_promise (run [DecodeResolved 0 (Image 9)] (step Unload s)) = None"
    by (simp add: s_def example_defs step_defs decode_png)
  then show ?thesis
    using s(1) tail by (simp add: s_def)
qed

end
